theory Spec2Isabelle
  imports Main "HOL-Library.Multiset" "HOL-Library.Option_ord" "HOL-Library.Product_Lexorder"
begin

section \<open>The edge classes of gdwg_graph.h\<close>

text \<open>
  \<open>weighted_edge<N, E>\<close> and \<open>unweighted_edge<N, E>\<close> are the two concrete subclasses of the
  abstract class \<open>edge<N, E>\<close>. The field \<open>is_weighted_\<close> is fixed by the constructor
  (true for the first class, false for the second), so the constructor of the datatype
  carries it; the constructor arguments are \<open>src_\<close>, \<open>dst_\<close> and \<open>weight_\<close>. \<open>N\<close> and \<open>E\<close>
  are ordered with \<open><\<close> by \<open>sortedges\<close>; they are linear orders here. The stream insertion of an \<open>N\<close> or an \<open>E\<close> into an \<open>ostringstream\<close> is a parameter
  (\<open>shown\<close>, \<open>showe\<close>) of every printing function.
\<close>

datatype ('n, 'e) edge =
    Weighted_edge 'n 'n 'e
  | Unweighted_edge 'n 'n

fun print_edge :: "('n \<Rightarrow> string) \<Rightarrow> ('e \<Rightarrow> string) \<Rightarrow> ('n, 'e) edge \<Rightarrow> string" where
  "print_edge shown showe (Weighted_edge s d w) =
     shown s @ '' -> '' @ shown d @ '' | W | '' @ showe w"
| "print_edge shown showe (Unweighted_edge s d) =
     shown s @ '' -> '' @ shown d @ '' | U''"

fun is_weighted :: "('n, 'e) edge \<Rightarrow> bool" where
  "is_weighted (Weighted_edge s d w) = True"
| "is_weighted (Unweighted_edge s d) = False"

fun get_weight :: "('n, 'e) edge \<Rightarrow> 'e option" where
  "get_weight (Weighted_edge s d w) = Some w"
| "get_weight (Unweighted_edge s d) = None"

fun get_nodes :: "('n, 'e) edge \<Rightarrow> 'n \<times> 'n" where
  "get_nodes (Weighted_edge s d w) = (s, d)"
| "get_nodes (Unweighted_edge s d) = (s, d)"

text \<open>\<open>replace(p, v)\<close> is \<open>(p == 1 ? dst_ : src_) = v\<close> in both classes.\<close>

fun replace :: "('n, 'e) edge \<Rightarrow> int \<Rightarrow> 'n \<Rightarrow> ('n, 'e) edge" where
  "replace (Weighted_edge s d w) p v =
     (if p = 1 then Weighted_edge s v w else Weighted_edge v d w)"
| "replace (Unweighted_edge s d) p v =
     (if p = 1 then Unweighted_edge s v else Unweighted_edge v d)"

section \<open>The store of edge objects and the graph\<close>

text \<open>
  A graph holds \<open>std::vector<std::shared_ptr<edge<N, E>>>\<close>: the vector stores pointers, and
  \<open>replace_node\<close> and \<open>merge_replace_node\<close> write through them. The edge objects therefore
  live in an explicit store, a graph holds their addresses, and two graphs may hold the same
  address. \<open>std::make_shared\<close> returns an address that no live pointer holds: the store
  keeps the next unused address in \<open>fresh\<close>. A \<open>shared_ptr\<close> of this code is never null
  and its object lives as long as a vector holds it, so reading a cell never fails.
\<close>

type_synonym addr = nat

record ('n, 'e) heap =
  cells :: "addr \<Rightarrow> ('n, 'e) edge"
  fresh :: addr

text \<open>The members \<open>nodes_\<close> and \<open>edges_\<close> of \<open>graph\<close> are the fields \<open>m_nodes\<close> and \<open>m_edges\<close>.\<close>

record 'n graph =
  m_nodes :: "'n set"
  m_edges :: "addr list"

datatype error = Runtime_error string

definition make_shared :: "('n, 'e) heap \<Rightarrow> ('n, 'e) edge \<Rightarrow> ('n, 'e) heap \<times> addr" where
  "make_shared h e = (h\<lparr>cells := (cells h)(fresh h := e), fresh := Suc (fresh h)\<rparr>, fresh h)"

text \<open>\<open>e->replace(p, v)\<close> through the pointer \<open>e\<close>.\<close>

definition replace_at :: "('n, 'e) heap \<Rightarrow> addr \<Rightarrow> int \<Rightarrow> 'n \<Rightarrow> ('n, 'e) heap" where
  "replace_at h a p v = h\<lparr>cells := (cells h)(a := replace (cells h a) p v)\<rparr>"

subsection \<open>Constructors and copy\<close>

definition graph_default :: "'n graph" where
  "graph_default = \<lparr>m_nodes = {}, m_edges = []\<rparr>"

definition graph_il :: "'n list \<Rightarrow> 'n graph" where
  "graph_il il = \<lparr>m_nodes = set il, m_edges = []\<rparr>"

text \<open>
  The copy constructor and the copy assignment copy \<open>nodes_\<close> and \<open>edges_\<close> member by member:
  the set by value, the vector of pointers element by element, so the new vector holds the
  same addresses. No edge object is created and the store is not touched.
\<close>

definition copy_graph :: "'n graph \<Rightarrow> 'n graph" where
  "copy_graph other = \<lparr>m_nodes = m_nodes other, m_edges = m_edges other\<rparr>"

subsection \<open>Accessors\<close>

definition is_node :: "'n graph \<Rightarrow> 'n \<Rightarrow> bool" where
  "is_node g v = (v \<in> m_nodes g)"

text \<open>
  An \<open>edge_iterator\<close> is a position in the vector: an index, with \<open>edges_.end()\<close> the length.
  \<open>find\<close> (here \<open>find_edge\<close>, with its loop \<open>find_loop\<close>) returns the first position whose edge
  has the given nodes and weight.
\<close>

fun find_loop :: "('n, 'e) heap \<Rightarrow> addr list \<Rightarrow> 'n \<Rightarrow> 'n \<Rightarrow> 'e option \<Rightarrow> nat" where
  "find_loop h [] src dst weight = 0"
| "find_loop h (e # es) src dst weight =
     (let strpair = get_nodes (cells h e) in
      if fst strpair = src \<and> snd strpair = dst \<and> get_weight (cells h e) = weight then 0
      else Suc (find_loop h es src dst weight))"

definition find_edge :: "('n, 'e) heap \<Rightarrow> 'n graph \<Rightarrow> 'n \<Rightarrow> 'n \<Rightarrow> 'e option \<Rightarrow> nat" where
  "find_edge h g src dst weight = find_loop h (m_edges g) src dst weight"

subsection \<open>Sorting\<close>

text \<open>
  \<open>std::sort(first, last, comp)\<close> leaves the range ordered by \<open>comp\<close>; the order of elements
  that \<open>comp\<close> does not distinguish is unspecified. The model is the insertion sort that keeps
  them in their order. Every comparison function of this code distinguishes any two edges
  that differ in nodes or weight within the range it sorts, so the sequence of
  (source, destination, weight) that a sorted vector shows does not depend on that choice.
\<close>

fun std_insert :: "('a \<Rightarrow> 'a \<Rightarrow> bool) \<Rightarrow> 'a \<Rightarrow> 'a list \<Rightarrow> 'a list" where
  "std_insert cmp x [] = [x]"
| "std_insert cmp x (y # ys) = (if cmp y x then y # std_insert cmp x ys else x # y # ys)"

definition std_sort :: "('a \<Rightarrow> 'a \<Rightarrow> bool) \<Rightarrow> 'a list \<Rightarrow> 'a list" where
  "std_sort cmp xs = foldr (std_insert cmp) xs []"

text \<open>
  The lambda \<open>sort_weight\<close> of \<open>sortedges\<close>, on the two edge objects. \<open><\<close> on
  \<open>std::optional<E>\<close> puts \<open>nullopt\<close> below every value, as \<open><\<close> on \<open>'e option\<close> does.
\<close>

definition sort_weight :: "('n::linorder, 'e::linorder) edge \<Rightarrow> ('n, 'e) edge \<Rightarrow> bool" where
  "sort_weight a b =
     (let node_a = get_nodes a; node_b = get_nodes b in
      if fst node_a \<noteq> fst node_b then fst node_a < fst node_b
      else if snd node_a \<noteq> snd node_b then snd node_a < snd node_b
      else get_weight a < get_weight b)"

definition sortedges :: "('n::linorder, 'e::linorder) heap \<Rightarrow> 'n graph \<Rightarrow> 'n graph" where
  "sortedges h g = g\<lparr>m_edges := std_sort (\<lambda>a b. sort_weight (cells h a) (cells h b)) (m_edges g)\<rparr>"

subsection \<open>Modifiers\<close>

text \<open>
  A modifier takes the store and the graph it is called on, and returns what the call
  returns or throws together with the store and the graph after the call.
\<close>

definition insert_node :: "('n, 'e) heap \<Rightarrow> 'n graph \<Rightarrow> 'n \<Rightarrow> bool \<times> ('n, 'e) heap \<times> 'n graph" where
  "insert_node h g v =
     (if v \<in> m_nodes g then (False, h, g)
      else (True, h, g\<lparr>m_nodes := insert v (m_nodes g)\<rparr>))"

definition insert_edge_msg :: string where
  "insert_edge_msg =
     ''Cannot call gdwg::graph<N, E>::insert_edge when either src or dst node does not exist''"

definition insert_edge ::
  "('n::linorder, 'e::linorder) heap \<Rightarrow> 'n graph \<Rightarrow> 'n \<Rightarrow> 'n \<Rightarrow> 'e option
     \<Rightarrow> (error + bool) \<times> ('n, 'e) heap \<times> 'n graph" where
  "insert_edge h g src dst weight =
     (if is_node g src \<and> is_node g dst then
        if find_edge h g src dst weight = length (m_edges g) then
          (case weight of
             None \<Rightarrow>
               (let (h', new_edge) = make_shared h (Unweighted_edge src dst);
                    g' = g\<lparr>m_edges := m_edges g @ [new_edge]\<rparr>
                in (Inr True, h', sortedges h' g'))
           | Some w \<Rightarrow>
               (let (h', new_edge) = make_shared h (Weighted_edge src dst w);
                    g' = g\<lparr>m_edges := m_edges g @ [new_edge]\<rparr>
                in (Inr True, h', sortedges h' g')))
        else (Inr False, h, g)
      else (Inl (Runtime_error insert_edge_msg), h, g))"

text \<open>
  The body of the loops of \<open>replace_node\<close> and \<open>merge_replace_node\<close>: the pair of nodes is
  read once, then each end that equals \<open>old_data\<close> is overwritten.
\<close>

definition rename_ends :: "('n, 'e) heap \<Rightarrow> addr \<Rightarrow> 'n \<Rightarrow> 'n \<Rightarrow> ('n, 'e) heap" where
  "rename_ends h e old_data new_data =
     (let strpair = get_nodes (cells h e);
          h1 = (if fst strpair = old_data then replace_at h e 0 new_data else h);
          h2 = (if snd strpair = old_data then replace_at h1 e 1 new_data else h1)
      in h2)"

fun replace_loop :: "('n, 'e) heap \<Rightarrow> addr list \<Rightarrow> 'n \<Rightarrow> 'n \<Rightarrow> ('n, 'e) heap" where
  "replace_loop h [] old_data new_data = h"
| "replace_loop h (e # es) old_data new_data =
     replace_loop (rename_ends h e old_data new_data) es old_data new_data"

definition replace_node_msg :: string where
  "replace_node_msg =
     ''Cannot call gdwg::graph<N, E>::replace_node on a node that doesn't exist''"

definition replace_node ::
  "('n::linorder, 'e::linorder) heap \<Rightarrow> 'n graph \<Rightarrow> 'n \<Rightarrow> 'n
     \<Rightarrow> (error + bool) \<times> ('n, 'e) heap \<times> 'n graph" where
  "replace_node h g old_data new_data =
     (if is_node g old_data then
        if \<not> is_node g new_data then
          (let g1 = g\<lparr>m_nodes := insert new_data (m_nodes g - {old_data})\<rparr>;
               h' = replace_loop h (m_edges g1) old_data new_data
           in (Inr True, h', sortedges h' g1))
        else (Inr False, h, g)
      else (Inl (Runtime_error replace_node_msg), h, g))"

text \<open>\<open>edges_.erase(i)\<close> and \<open>edges_.erase(i, s)\<close> on positions.\<close>

definition vec_erase :: "'a list \<Rightarrow> nat \<Rightarrow> 'a list" where
  "vec_erase xs i = take i xs @ drop (Suc i) xs"

definition vec_erase_range :: "'a list \<Rightarrow> nat \<Rightarrow> nat \<Rightarrow> 'a list" where
  "vec_erase_range xs i s = take i xs @ drop s xs"

text \<open>
  The loop of \<open>merge_replace_node\<close>, on the position \<open>e\<close>. The loop runs while
  \<open>e != edges_.end()\<close>; \<open>e\<close> starts at 0 and never passes the end, so the test is \<open>e < length\<close>.
\<close>

function merge_loop ::
  "('n, 'e) heap \<Rightarrow> addr list \<Rightarrow> nat \<Rightarrow> 'n \<Rightarrow> 'n \<Rightarrow> ('n, 'e) heap \<times> addr list" where
  "merge_loop h es e old_data new_data =
     (if e < length es then
        (let h' = rename_ends h (es ! e) old_data new_data;
             strpair = get_nodes (cells h' (es ! e));
             first_it = find_loop h' es (fst strpair) (snd strpair) (get_weight (cells h' (es ! e)))
         in if first_it \<noteq> e then merge_loop h' (vec_erase es e) e old_data new_data
            else merge_loop h' es (Suc e) old_data new_data)
      else (h, es))"
  by pat_completeness auto
termination
  by (relation "measure (\<lambda>(h, es, e, old_data, new_data). length es - e)")
     (auto simp: vec_erase_def)

declare merge_loop.simps [simp del]

definition merge_replace_node_msg :: string where
  "merge_replace_node_msg =
     ''Cannot call gdwg::graph<N, E>::merge_replace_node on old or new data if they don't exist in the graph''"

definition merge_replace_node ::
  "('n::linorder, 'e::linorder) heap \<Rightarrow> 'n graph \<Rightarrow> 'n \<Rightarrow> 'n
     \<Rightarrow> (error + unit) \<times> ('n, 'e) heap \<times> 'n graph" where
  "merge_replace_node h g old_data new_data =
     (if is_node g old_data \<and> is_node g new_data then
        (let (h', es') = merge_loop h (m_edges g) 0 old_data new_data
         in (Inr (), h', sortedges h' (g\<lparr>m_edges := es'\<rparr>)))
      else (Inl (Runtime_error merge_replace_node_msg), h, g))"

text \<open>The loop of \<open>erase_node\<close> visits every edge once and erases those that touch \<open>value\<close>.\<close>

fun erase_loop :: "('n, 'e) heap \<Rightarrow> addr list \<Rightarrow> 'n \<Rightarrow> addr list" where
  "erase_loop h [] v = []"
| "erase_loop h (e # es) v =
     (let strpair = get_nodes (cells h e) in
      if fst strpair = v \<or> snd strpair = v then erase_loop h es v
      else e # erase_loop h es v)"

definition erase_node ::
  "('n::linorder, 'e::linorder) heap \<Rightarrow> 'n graph \<Rightarrow> 'n \<Rightarrow> bool \<times> ('n, 'e) heap \<times> 'n graph" where
  "erase_node h g v =
     (if is_node g v then
        (let g1 = g\<lparr>m_edges := erase_loop h (m_edges g) v\<rparr>;
             g2 = g1\<lparr>m_nodes := m_nodes g1 - {v}\<rparr>
         in (True, h, sortedges h g2))
      else (False, h, g))"

definition erase_edge_msg :: string where
  "erase_edge_msg =
     ''Cannot call gdwg::graph<N, E>::erase_edge on src or dst if they don't exist in the graph''"

definition erase_edge ::
  "('n::linorder, 'e::linorder) heap \<Rightarrow> 'n graph \<Rightarrow> 'n \<Rightarrow> 'n \<Rightarrow> 'e option
     \<Rightarrow> (error + bool) \<times> ('n, 'e) heap \<times> 'n graph" where
  "erase_edge h g src dst weight =
     (if is_node g src \<and> is_node g dst then
        (let target_it = find_edge h g src dst weight in
         if target_it \<noteq> length (m_edges g) then
           (Inr True, h, sortedges h (g\<lparr>m_edges := vec_erase (m_edges g) target_it\<rparr>))
         else (Inr False, h, g))
      else (Inl (Runtime_error erase_edge_msg), h, g))"

text \<open>
  The iterator overloads. \<open>vector::erase\<close> is undefined on a position that cannot be
  dereferenced; every statement about these two functions has the positions in range.
\<close>

definition erase_edge_it ::
  "('n::linorder, 'e::linorder) heap \<Rightarrow> 'n graph \<Rightarrow> nat \<Rightarrow> nat \<times> ('n, 'e) heap \<times> 'n graph" where
  "erase_edge_it h g i =
     (let res = i in (res, h, sortedges h (g\<lparr>m_edges := vec_erase (m_edges g) i\<rparr>)))"

definition erase_edge_range ::
  "('n::linorder, 'e::linorder) heap \<Rightarrow> 'n graph \<Rightarrow> nat \<Rightarrow> nat
     \<Rightarrow> nat \<times> ('n, 'e) heap \<times> 'n graph" where
  "erase_edge_range h g i s =
     (let res = i in (res, h, sortedges h (g\<lparr>m_edges := vec_erase_range (m_edges g) i s\<rparr>)))"

definition clear :: "('n, 'e) heap \<Rightarrow> 'n graph \<Rightarrow> ('n, 'e) heap \<times> 'n graph" where
  "clear h g = (h, g\<lparr>m_nodes := {}, m_edges := []\<rparr>)"

subsection \<open>Accessors that read the edges\<close>

text \<open>
  \<open>nodes()\<close> copies the set into a vector, in the set's ascending order, and sorts it.
\<close>

definition nodes :: "('n::linorder) graph \<Rightarrow> 'n list" where
  "nodes g = std_sort (\<lambda>a b. a < b) (sorted_list_of_set (m_nodes g))"

definition edges_msg :: string where
  "edges_msg =
     ''Cannot call gdwg::graph<N, E>::edges if src or dst node don't exist in the graph''"

definition edges ::
  "('n, 'e::linorder) heap \<Rightarrow> 'n graph \<Rightarrow> 'n \<Rightarrow> 'n \<Rightarrow> error + addr list" where
  "edges h g src dst =
     (if is_node g src \<and> is_node g dst then
        (let res = filter (\<lambda>e. let strpair = get_nodes (cells h e)
                               in fst strpair = src \<and> snd strpair = dst) (m_edges g)
         in Inr (std_sort (\<lambda>a b. get_weight (cells h a) < get_weight (cells h b)) res))
      else Inl (Runtime_error edges_msg))"

fun connections_loop :: "('n, 'e) heap \<Rightarrow> addr list \<Rightarrow> 'n \<Rightarrow> 'n list \<Rightarrow> 'n list" where
  "connections_loop h [] src res = res"
| "connections_loop h (e # es) src res =
     (let strpair = get_nodes (cells h e); dst = snd strpair in
      if fst strpair = src \<and> dst \<notin> set res then connections_loop h es src (res @ [dst])
      else connections_loop h es src res)"

definition connections_msg :: string where
  "connections_msg =
     ''Cannot call gdwg::graph<N, E>::connections if src doesn't exist in the graph''"

definition connections ::
  "('n::linorder, 'e) heap \<Rightarrow> 'n graph \<Rightarrow> 'n \<Rightarrow> error + 'n list" where
  "connections h g src =
     (if is_node g src then
        Inr (std_sort (\<lambda>a b. a < b) (connections_loop h (m_edges g) src []))
      else Inl (Runtime_error connections_msg))"

text \<open>
  \<open>operator==\<close> (here \<open>graph_eq\<close>): the sizes of both members agree, every node of
  \<open>other\<close> is a node of this graph, and \<open>find\<close> on this graph finds the nodes and weight of
  every edge of \<open>other\<close>.
\<close>

definition graph_eq :: "('n, 'e) heap \<Rightarrow> 'n graph \<Rightarrow> 'n graph \<Rightarrow> bool" where
  "graph_eq h g other =
     (let other_n = m_nodes other; other_e = m_edges other in
      if card other_n = card (m_nodes g) \<and> length other_e = length (m_edges g) then
        if \<exists>n \<in> other_n. n \<notin> m_nodes g then False
        else if \<exists>e \<in> set other_e.
                  (let strpair = get_nodes (cells h e)
                   in find_edge h g (fst strpair) (snd strpair) (get_weight (cells h e))
                        = length (m_edges g))
        then False
        else True
      else False)"

subsection \<open>The extractor\<close>

text \<open>
  \<open>operator<<\<close> (here \<open>operator_out\<close>) writes a line break, then one block for each element
  of \<open>nodes()\<close>. It is declared \<open>noexcept\<close> and calls \<open>connections\<close> and \<open>edges\<close>, which throw:
  the result is the text written, or the exception that leaves the function (and ends the
  program).
\<close>

definition nl :: string where
  "nl = [CHR 0x0A]"

fun out_edges :: "('n \<Rightarrow> string) \<Rightarrow> ('e \<Rightarrow> string) \<Rightarrow> ('n, 'e) heap \<Rightarrow> addr list \<Rightarrow> string" where
  "out_edges shown showe h [] = []"
| "out_edges shown showe h (e # cn_edges) =
     (let temp_str = print_edge shown showe (cells h e)
      in ''  '' @ temp_str @ nl @ out_edges shown showe h cn_edges)"

fun out_conn ::
  "('n \<Rightarrow> string) \<Rightarrow> ('e \<Rightarrow> string) \<Rightarrow> ('n, 'e::linorder) heap \<Rightarrow> 'n graph \<Rightarrow> 'n \<Rightarrow> 'n list
     \<Rightarrow> error + string" where
  "out_conn shown showe h g n [] = Inr []"
| "out_conn shown showe h g n (cn # conn) =
     (case edges h g n cn of
        Inl ex \<Rightarrow> Inl ex
      | Inr cn_edges \<Rightarrow>
          (case out_conn shown showe h g n conn of
             Inl ex \<Rightarrow> Inl ex
           | Inr rest \<Rightarrow> Inr (out_edges shown showe h cn_edges @ rest)))"

fun out_nodes ::
  "('n \<Rightarrow> string) \<Rightarrow> ('e \<Rightarrow> string) \<Rightarrow> ('n::linorder, 'e::linorder) heap \<Rightarrow> 'n graph \<Rightarrow> 'n list
     \<Rightarrow> error + string" where
  "out_nodes shown showe h g [] = Inr []"
| "out_nodes shown showe h g (n # ns) =
     (case connections h g n of
        Inl ex \<Rightarrow> Inl ex
      | Inr conn \<Rightarrow>
          (case out_conn shown showe h g n conn of
             Inl ex \<Rightarrow> Inl ex
           | Inr body \<Rightarrow>
               (case out_nodes shown showe h g ns of
                  Inl ex \<Rightarrow> Inl ex
                | Inr rest \<Rightarrow> Inr (shown n @ '' ('' @ nl @ body @ '')'' @ nl @ rest))))"

definition operator_out ::
  "('n \<Rightarrow> string) \<Rightarrow> ('e \<Rightarrow> string) \<Rightarrow> ('n::linorder, 'e::linorder) heap \<Rightarrow> 'n graph
     \<Rightarrow> error + string" where
  "operator_out shown showe h g =
     (case out_nodes shown showe h g (nodes g) of
        Inl ex \<Rightarrow> Inl ex
      | Inr res \<Rightarrow> Inr (nl @ res))"

section \<open>What a graph shows, and its invariants\<close>

text \<open>
  Dereferencing an iterator gives \<open>value_type{from, to, weight}\<close> of the edge object it
  points to; \<open>contents\<close> is the sequence that iterating from \<open>begin()\<close> to \<open>end()\<close> gives.
\<close>

definition value_type :: "('n, 'e) edge \<Rightarrow> 'n \<times> 'n \<times> 'e option" where
  "value_type e = (fst (get_nodes e), snd (get_nodes e), get_weight e)"

definition contents :: "('n, 'e) heap \<Rightarrow> 'n graph \<Rightarrow> ('n \<times> 'n \<times> 'e option) list" where
  "contents h g = map (\<lambda>a. value_type (cells h a)) (m_edges g)"

text \<open>Every address a graph holds was returned by \<open>make_shared\<close>.\<close>

definition allocated :: "('n, 'e) heap \<Rightarrow> 'n graph \<Rightarrow> bool" where
  "allocated h g = (\<forall>a \<in> set (m_edges g). a < fresh h)"

text \<open>I1: the ends of every edge are nodes. I2: no two edges agree in source, destination
  and weight.\<close>

definition I1 :: "('n, 'e) heap \<Rightarrow> 'n graph \<Rightarrow> bool" where
  "I1 h g = (\<forall>(s, d, w) \<in> set (contents h g). s \<in> m_nodes g \<and> d \<in> m_nodes g)"

definition I2 :: "('n, 'e) heap \<Rightarrow> 'n graph \<Rightarrow> bool" where
  "I2 h g = distinct (contents h g)"

text \<open>
  I3, in the words of the specification: ascending by source, then by destination, then by
  weight, where an absent weight comes before every present weight.
\<close>

fun weight_le :: "('e::linorder) option \<Rightarrow> 'e option \<Rightarrow> bool" where
  "weight_le None w = True"
| "weight_le (Some x) None = False"
| "weight_le (Some x) (Some y) = (x \<le> y)"

fun I3_le :: "('n::linorder) \<times> 'n \<times> ('e::linorder) option \<Rightarrow> 'n \<times> 'n \<times> 'e option \<Rightarrow> bool" where
  "I3_le (s1, d1, w1) (s2, d2, w2) =
     (s1 < s2 \<or> (s1 = s2 \<and> (d1 < d2 \<or> (d1 = d2 \<and> weight_le w1 w2))))"

definition I3 :: "('n::linorder, 'e::linorder) heap \<Rightarrow> 'n graph \<Rightarrow> bool" where
  "I3 h g = sorted_wrt I3_le (contents h g)"

text \<open>Renaming the ends of an edge that equal \<open>old\<close>, on what the edge shows.\<close>

fun renamed :: "'n \<Rightarrow> 'n \<Rightarrow> 'n \<times> 'n \<times> 'e option \<Rightarrow> 'n \<times> 'n \<times> 'e option" where
  "renamed old new (s, d, w) = (if s = old then new else s, if d = old then new else d, w)"

text \<open>
  Dropping every element that already appears earlier in the sequence, keeping the earlier
  one: \<open>kept\<close> is what has been kept so far.
\<close>

fun absorb :: "'a list \<Rightarrow> 'a list \<Rightarrow> 'a list" where
  "absorb kept [] = kept"
| "absorb kept (x # xs) = (if x \<in> set kept then absorb kept xs else absorb (kept @ [x]) xs)"

definition keep_first :: "'a list \<Rightarrow> 'a list" where
  "keep_first xs = absorb [] xs"

text \<open>A property of the store and the graph that a call leaves behind.\<close>

definition holds_after ::
  "(('n, 'e) heap \<Rightarrow> 'n graph \<Rightarrow> bool) \<Rightarrow> 'r \<times> ('n, 'e) heap \<times> 'n graph \<Rightarrow> bool" where
  "holds_after P res = P (fst (snd res)) (snd (snd res))"

text \<open>
  A concrete state: the nodes 1, 2, 3 and the edges 1 \<rightarrow> 3 and 2 \<rightarrow> 3, both of weight 2.
\<close>

definition ex_heap :: "(nat, int) heap" where
  "ex_heap = \<lparr>cells = (\<lambda>a. if a = 0 then Weighted_edge 1 3 2
                            else if a = 1 then Weighted_edge 2 3 2
                            else Unweighted_edge 0 0),
              fresh = 2\<rparr>"

definition ex_graph :: "nat graph" where
  "ex_graph = \<lparr>m_nodes = {1, 2, 3}, m_edges = [0, 1]\<rparr>"

text \<open>A copy of the concrete graph, and \<open>replace_node(1, 5)\<close> called on the copy.\<close>

definition ex_copy :: "nat graph" where
  "ex_copy = copy_graph ex_graph"

definition ex_renamed :: "(error + bool) \<times> (nat, int) heap \<times> nat graph" where
  "ex_renamed = replace_node ex_heap ex_copy 1 5"

text \<open>\<open>replace_node(3, 5)\<close> called on the copy: 3 is the destination of both edges.\<close>

definition ex_renamed_dst :: "(error + bool) \<times> (nat, int) heap \<times> nat graph" where
  "ex_renamed_dst = replace_node ex_heap ex_copy 3 5"

text \<open>
  A second concrete state: the nodes 1, 2, 3 and the edges 1 \<rightarrow> 2 (unweighted), 1 \<rightarrow> 3 and
  2 \<rightarrow> 3 (both of weight 2); \<open>replace_node(1, 5)\<close> called on a copy of that graph; then
  \<open>erase_edge\<close> called on the graph itself at its first position.
\<close>

definition ex3_heap :: "(nat, int) heap" where
  "ex3_heap = \<lparr>cells = (\<lambda>a. if a = 0 then Unweighted_edge 1 2
                             else if a = 1 then Weighted_edge 1 3 2
                             else if a = 2 then Weighted_edge 2 3 2
                             else Unweighted_edge 0 0),
               fresh = 3\<rparr>"

definition ex3_graph :: "nat graph" where
  "ex3_graph = \<lparr>m_nodes = {1, 2, 3}, m_edges = [0, 1, 2]\<rparr>"

definition ex3_renamed :: "(error + bool) \<times> (nat, int) heap \<times> nat graph" where
  "ex3_renamed = replace_node ex3_heap (copy_graph ex3_graph) 1 5"

definition ex3_erased :: "nat \<times> (nat, int) heap \<times> nat graph" where
  "ex3_erased = erase_edge_it (fst (snd ex3_renamed)) ex3_graph 0"

text \<open>
  \<open>insert_edge(a, b)\<close> followed by \<open>insert_edge(a, b, w)\<close> on the same graph: what the two
  calls return, and the store and the graph after the second.
\<close>

definition insert_both ::
  "('n::linorder, 'e::linorder) heap \<Rightarrow> 'n graph \<Rightarrow> 'n \<Rightarrow> 'n \<Rightarrow> 'e
     \<Rightarrow> (error + bool) \<times> (error + bool) \<times> ('n, 'e) heap \<times> 'n graph" where
  "insert_both h g a b w =
     (let (r1, h1, g1) = insert_edge h g a b None;
          (r2, h2, g2) = insert_edge h1 g1 a b (Some w)
      in (r1, r2, h2, g2))"

definition ex_both :: "(error + bool) \<times> (error + bool) \<times> (nat, int) heap \<times> nat graph" where
  "ex_both = insert_both ex_heap ex_graph 1 3 5"

text \<open>
  The text of the specification's formatter. An edge is rendered from its source,
  destination and weight; the block of a node lists the edges that leave it, ordered by
  destination and then by weight, an absent weight before every present one (the order of
  the pairs of destination and weight); the dump is a line break followed by the blocks of
  the nodes in ascending order.
\<close>

fun spec_render :: "('n \<Rightarrow> string) \<Rightarrow> ('e \<Rightarrow> string) \<Rightarrow> 'n \<times> 'n \<times> 'e option \<Rightarrow> string" where
  "spec_render shown showe (s, d, Some w) = shown s @ '' -> '' @ shown d @ '' | W | '' @ showe w"
| "spec_render shown showe (s, d, None) = shown s @ '' -> '' @ shown d @ '' | U''"

definition spec_outgoing ::
  "('n::linorder, 'e::linorder) heap \<Rightarrow> 'n graph \<Rightarrow> 'n \<Rightarrow> ('n \<times> 'n \<times> 'e option) list" where
  "spec_outgoing h g n =
     sort_key snd (filter (\<lambda>t. fst t = n) (contents h g))"

definition spec_block ::
  "('n \<Rightarrow> string) \<Rightarrow> ('e \<Rightarrow> string) \<Rightarrow> ('n::linorder, 'e::linorder) heap \<Rightarrow> 'n graph \<Rightarrow> 'n
     \<Rightarrow> string" where
  "spec_block shown showe h g n =
     shown n @ '' ('' @ nl
       @ concat (map (\<lambda>t. ''  '' @ spec_render shown showe t @ nl) (spec_outgoing h g n))
       @ '')'' @ nl"

definition spec_dump ::
  "('n \<Rightarrow> string) \<Rightarrow> ('e \<Rightarrow> string) \<Rightarrow> ('n::linorder, 'e::linorder) heap \<Rightarrow> 'n graph \<Rightarrow> string" where
  "spec_dump shown showe h g =
     nl @ concat (map (spec_block shown showe h g) (sorted_list_of_set (m_nodes g)))"

text \<open>The decimal digit of a number below ten, to print the concrete graph.\<close>

definition ex_show :: "nat \<Rightarrow> string" where
  "ex_show n = [char_of (48 + n)]"

section \<open>Sorting and the order of the edges\<close>

lemma std_insert_key:
  assumes "\<And>a b. cmp a b = (f a < f b)"
  shows "std_insert cmp x ys = insort_key f x ys"
  by (induction ys) (auto simp: assms)

lemma std_sort_key:
  assumes "\<And>a b. cmp a b = (f a < f b)"
  shows "std_sort cmp xs = sort_key f xs"
  unfolding std_sort_def sort_key_def
  by (induction xs) (simp_all add: std_insert_key[OF assms])

lemma sort_weight_less: "sort_weight a b = (value_type a < value_type b)"
  by (auto simp: sort_weight_def value_type_def Let_def)

lemma weight_le_iff: "weight_le x y = (x \<le> y)"
  by (cases x; cases y) simp_all

lemma I3_le_iff: "I3_le x y = (x \<le> y)"
  by (cases x; cases y) (auto simp: weight_le_iff)

lemma I3_sorted: "I3 h g = sorted (contents h g)"
proof -
  have "I3_le = ((\<le>) :: ('a \<times> 'a \<times> 'b option) \<Rightarrow> _)"
    by (intro ext) (rule I3_le_iff)
  then show ?thesis by (simp add: I3_def)
qed

lemma map_sort_key: "map f (sort_key f xs) = sort (map f xs)"
  by (rule properties_for_sort[symmetric]) simp_all

lemma m_edges_sortedges:
  "m_edges (sortedges h g) = sort_key (\<lambda>a. value_type (cells h a)) (m_edges g)"
  by (simp add: sortedges_def std_sort_key[where f = "\<lambda>a. value_type (cells h a)"]
      sort_weight_less)

lemma m_nodes_sortedges: "m_nodes (sortedges h g) = m_nodes g"
  by (simp add: sortedges_def)

lemma contents_sortedges: "contents h (sortedges h g) = sort (contents h g)"
  by (simp add: contents_def m_edges_sortedges map_sort_key)

lemma I3_sortedges: "I3 h (sortedges h g)"
  by (simp add: I3_sorted contents_sortedges)

lemma sortedges_id:
  assumes "I3 h g"
  shows "sortedges h g = g"
proof -
  from assms have "sorted (map (\<lambda>a. value_type (cells h a)) (m_edges g))"
    by (simp add: I3_sorted contents_def)
  then have "sort_key (\<lambda>a. value_type (cells h a)) (m_edges g) = m_edges g"
    by (rule sort_key_id_if_sorted)
  then have "m_edges (sortedges h g) = m_edges g"
    by (simp add: m_edges_sortedges)
  then show ?thesis
    by (simp add: sortedges_def)
qed

lemma I3_insert_node: "I3 h g \<Longrightarrow> holds_after I3 (insert_node h g v)"
  by (auto simp: holds_after_def insert_node_def I3_def contents_def)

lemma I3_insert_edge: "I3 h g \<Longrightarrow> holds_after I3 (insert_edge h g src dst weight)"
  by (auto simp: holds_after_def insert_edge_def Let_def I3_sortedges
      split: option.splits prod.splits)

lemma I3_replace_node: "I3 h g \<Longrightarrow> holds_after I3 (replace_node h g old_data new_data)"
  by (auto simp: holds_after_def replace_node_def Let_def I3_sortedges)

lemma I3_merge_replace_node:
  "I3 h g \<Longrightarrow> holds_after I3 (merge_replace_node h g old_data new_data)"
  by (auto simp: holds_after_def merge_replace_node_def Let_def I3_sortedges split: prod.splits)

lemma I3_erase_node: "I3 h g \<Longrightarrow> holds_after I3 (erase_node h g v)"
  by (auto simp: holds_after_def erase_node_def Let_def I3_sortedges)

lemma I3_erase_edge: "I3 h g \<Longrightarrow> holds_after I3 (erase_edge h g src dst weight)"
  by (auto simp: holds_after_def erase_edge_def Let_def I3_sortedges)

lemma I3_erase_edge_it: "holds_after I3 (erase_edge_it h g i)"
  by (simp add: holds_after_def erase_edge_it_def I3_sortedges)

lemma I3_erase_edge_range: "holds_after I3 (erase_edge_range h g i s)"
  by (simp add: holds_after_def erase_edge_range_def I3_sortedges)

lemma I3_clear: "holds_after I3 ((), clear h g)"
  by (simp add: holds_after_def clear_def I3_def contents_def)

lemma I3_ex: "I3 ex_heap ex_graph"
  by (simp add: I3_def contents_def ex_heap_def ex_graph_def value_type_def)

text \<open>
  The order I3 on the graph an operation is called on. A graph has its edges in the order
  I3 after each constructor (it has no edges), and a graph whose edges are in that order
  has them in that order after \<open>insert_node\<close>,
  \<open>insert_edge\<close>, \<open>replace_node\<close>, \<open>merge_replace_node\<close>, \<open>erase_node\<close>, the three overloads
  of \<open>erase_edge\<close> and \<open>clear\<close>, whatever the call returns or throws: ascending by source,
  then destination, then weight, an unweighted edge before the weighted ones.
\<close>

theorem I3_preserved:
  fixes h :: "('n::linorder, 'e::linorder) heap"
  assumes "I3 h g"
  shows "I3 h graph_default \<and> I3 h (graph_il il)
    \<and> holds_after I3 (insert_node h g v)
    \<and> holds_after I3 (insert_edge h g src dst weight)
    \<and> holds_after I3 (replace_node h g old_data new_data)
    \<and> holds_after I3 (merge_replace_node h g old_data new_data)
    \<and> holds_after I3 (erase_node h g v)
    \<and> holds_after I3 (erase_edge h g src dst weight)
    \<and> holds_after I3 (erase_edge_it h g i)
    \<and> holds_after I3 (erase_edge_range h g i s)
    \<and> holds_after I3 ((), clear h g)"
proof -
  have "I3 h graph_default" and "I3 h (graph_il il)"
    by (simp_all add: I3_def contents_def graph_default_def graph_il_def)
  with assms show ?thesis
    by (simp add: I3_insert_node I3_insert_edge I3_replace_node I3_merge_replace_node
        I3_erase_node I3_erase_edge I3_erase_edge_it I3_erase_edge_range I3_clear)
qed

theorem I3_preserved_witness:
  "I3 ex_heap ex_graph
    \<and> holds_after I3 (insert_edge ex_heap ex_graph 2 1 None)
    \<and> holds_after I3 (replace_node ex_heap ex_graph 1 5)
    \<and> holds_after I3 (merge_replace_node ex_heap ex_graph 1 2)
    \<and> holds_after I3 (erase_node ex_heap ex_graph 3)
    \<and> holds_after I3 (erase_edge ex_heap ex_graph 1 3 (Some 2))"
  using I3_preserved [OF I3_ex, of "[]" 3 2 1 None 1 5 0 0] I3_ex
    I3_preserved [OF I3_ex, of "[]" 3 1 3 "Some 2" 1 2 0 0]
  by simp

section \<open>Finding, inserting and erasing edges\<close>

lemma contents_ex: "contents ex_heap ex_graph = [(1, 3, Some 2), (2, 3, Some 2)]"
  by (simp add: contents_def ex_heap_def ex_graph_def value_type_def)

lemma find_loop_le: "find_loop h es s d w \<le> length es"
  by (induction es) (auto simp: Let_def)

lemma find_loop_end:
  "(find_loop h es s d w = length es) = ((s, d, w) \<notin> set (map (\<lambda>a. value_type (cells h a)) es))"
  using find_loop_le[of h _ s d w]
  apply (induction es) apply (auto simp: Let_def value_type_def)
  done

lemma find_loop_nth:
  "find_loop h es s d w < length es \<Longrightarrow> value_type (cells h (es ! find_loop h es s d w)) = (s, d, w)"
  by (induction es) (auto simp: Let_def value_type_def)

lemma find_loop_first:
  "i < find_loop h es s d w \<Longrightarrow> i < length es \<Longrightarrow> value_type (cells h (es ! i)) \<noteq> (s, d, w)"
  apply (induction es arbitrary: i) apply (auto simp: Let_def value_type_def nth_Cons split: nat.splits if_splits)
  done

lemma find_edge_end: "(find_edge h g s d w = length (m_edges g)) = ((s, d, w) \<notin> set (contents h g))"
  by (simp add: find_edge_def contents_def find_loop_end)

text \<open>
  C5. Whenever \<open>insert_edge\<close>, \<open>replace_node\<close>, \<open>merge_replace_node\<close> or
  \<open>erase_edge(src, dst, weight)\<close> throws, the store of edge objects and the graph (its node
  set and its vector of edges) are what they were before the call.
\<close>

theorem throw_before_mutation:
  "(isl (fst (insert_edge h g src dst weight)) \<longrightarrow>
      snd (insert_edge h g src dst weight) = (h, g))
 \<and> (isl (fst (replace_node h g old_data new_data)) \<longrightarrow>
      snd (replace_node h g old_data new_data) = (h, g))
 \<and> (isl (fst (merge_replace_node h g old_data new_data)) \<longrightarrow>
      snd (merge_replace_node h g old_data new_data) = (h, g))
 \<and> (isl (fst (erase_edge h g src dst weight)) \<longrightarrow>
      snd (erase_edge h g src dst weight) = (h, g))"
  by (auto simp: insert_edge_def replace_node_def merge_replace_node_def erase_edge_def Let_def
      split: option.splits prod.splits if_splits)

theorem throw_before_mutation_witness:
  "isl (fst (insert_edge ex_heap ex_graph 7 1 None))
 \<and> snd (insert_edge ex_heap ex_graph 7 1 None) = (ex_heap, ex_graph)
 \<and> isl (fst (replace_node ex_heap ex_graph 7 1))
 \<and> snd (replace_node ex_heap ex_graph 7 1) = (ex_heap, ex_graph)
 \<and> isl (fst (merge_replace_node ex_heap ex_graph 7 1))
 \<and> snd (merge_replace_node ex_heap ex_graph 7 1) = (ex_heap, ex_graph)
 \<and> isl (fst (erase_edge ex_heap ex_graph 7 1 None))
 \<and> snd (erase_edge ex_heap ex_graph 7 1 None) = (ex_heap, ex_graph)"
proof -
  have "isl (fst (insert_edge ex_heap ex_graph 7 1 None))"
    and "isl (fst (replace_node ex_heap ex_graph 7 1))"
    and "isl (fst (merge_replace_node ex_heap ex_graph 7 1))"
    and "isl (fst (erase_edge ex_heap ex_graph 7 1 None))"
    by (simp_all add: insert_edge_def replace_node_def merge_replace_node_def erase_edge_def
        is_node_def ex_graph_def)
  then show ?thesis
    using throw_before_mutation [of ex_heap ex_graph 7 1 None 7 1] by simp
qed

lemma contents_alloc:
  assumes "allocated h g"
  shows "contents (h\<lparr>cells := (cells h)(fresh h := e), fresh := Suc (fresh h)\<rparr>)
           (g\<lparr>m_edges := m_edges g @ [fresh h]\<rparr>) = contents h g @ [value_type e]"
  using assms by (auto simp: contents_def allocated_def)

lemma value_type_new:
  "value_type (case weight of None \<Rightarrow> Unweighted_edge src dst | Some w \<Rightarrow> Weighted_edge src dst w)
     = (src, dst, weight)"
  by (simp add: value_type_def split: option.splits)

lemma insert_edge_new:
  assumes "is_node g src" "is_node g dst" "(src, dst, weight) \<notin> set (contents h g)"
  shows "insert_edge h g src dst weight =
    (let h' = h\<lparr>cells := (cells h)(fresh h :=
                  (case weight of None \<Rightarrow> Unweighted_edge src dst | Some w \<Rightarrow> Weighted_edge src dst w)),
                fresh := Suc (fresh h)\<rparr>
     in (Inr True, h', sortedges h' (g\<lparr>m_edges := m_edges g @ [fresh h]\<rparr>)))"
  using assms by (simp add: insert_edge_def find_edge_end make_shared_def Let_def split: option.splits)

text \<open>
  C2. \<open>insert_edge(src, dst, weight)\<close> throws, with the graph unchanged, when \<open>src\<close> or \<open>dst\<close>
  is not a node. When both are nodes and an edge with the same source, destination and
  weight is present, it returns false and changes nothing. Otherwise it returns true: a new
  edge object is created, unweighted when the weight is absent and weighted otherwise, no
  other edge object changes, the vector holds the new pointer besides the ones it held, the
  graph shows one more edge (src, dst, weight), and the edges are in the order I3.
\<close>

theorem insert_edge_spec:
  assumes "insert_edge h g src dst weight = (r, h', g')"
  shows "(\<not> (is_node g src \<and> is_node g dst) \<longrightarrow>
            r = Inl (Runtime_error insert_edge_msg) \<and> h' = h \<and> g' = g)
       \<and> (is_node g src \<and> is_node g dst \<and> (src, dst, weight) \<in> set (contents h g) \<longrightarrow>
            r = Inr False \<and> h' = h \<and> g' = g)
       \<and> (is_node g src \<and> is_node g dst \<and> (src, dst, weight) \<notin> set (contents h g) \<longrightarrow>
            r = Inr True \<and> m_nodes g' = m_nodes g
            \<and> cells h' (fresh h) = (case weight of None \<Rightarrow> Unweighted_edge src dst
                                      | Some w \<Rightarrow> Weighted_edge src dst w)
            \<and> (\<forall>a. a \<noteq> fresh h \<longrightarrow> cells h' a = cells h a)
            \<and> mset (m_edges g') = add_mset (fresh h) (mset (m_edges g))
            \<and> (allocated h g \<longrightarrow>
                 mset (contents h' g') = add_mset (src, dst, weight) (mset (contents h g)))
            \<and> I3 h' g')"
proof (intro conjI impI)
  assume "\<not> (is_node g src \<and> is_node g dst)"
  with assms show "r = Inl (Runtime_error insert_edge_msg)" "h' = h" "g' = g"
    by (auto simp: insert_edge_def)
next
  assume "is_node g src \<and> is_node g dst \<and> (src, dst, weight) \<in> set (contents h g)"
  with assms show "r = Inr False" "h' = h" "g' = g"
    by (auto simp: insert_edge_def find_edge_end)
next
  assume a: "is_node g src \<and> is_node g dst \<and> (src, dst, weight) \<notin> set (contents h g)"
  define e :: "('a, 'b) edge" where
    "e = (case weight of None \<Rightarrow> Unweighted_edge src dst | Some w \<Rightarrow> Weighted_edge src dst w)"
  define h1 where "h1 = h\<lparr>cells := (cells h)(fresh h := e), fresh := Suc (fresh h)\<rparr>"
  define g1 where "g1 = g\<lparr>m_edges := m_edges g @ [fresh h]\<rparr>"
  from a assms have r: "r = Inr True" and h': "h' = h1" and g': "g' = sortedges h1 g1"
    by (auto simp: insert_edge_new Let_def e_def h1_def g1_def)
  show "r = Inr True" by (rule r)
  show "m_nodes g' = m_nodes g" by (simp add: g' m_nodes_sortedges g1_def)
  show "cells h' (fresh h) = (case weight of None \<Rightarrow> Unweighted_edge src dst
                                      | Some w \<Rightarrow> Weighted_edge src dst w)"
    by (simp add: h' h1_def e_def)
  show "\<forall>a. a \<noteq> fresh h \<longrightarrow> cells h' a = cells h a" by (simp add: h' h1_def)
  show "mset (m_edges g') = add_mset (fresh h) (mset (m_edges g))"
    by (simp add: g' m_edges_sortedges g1_def)
  show "I3 h' g'" by (simp add: h' g' I3_sortedges)
  show "mset (contents h' g') = add_mset (src, dst, weight) (mset (contents h g))" if "allocated h g"
    using contents_alloc[OF that, of e]
    by (simp add: h' g' contents_sortedges h1_def g1_def e_def value_type_new)
qed

theorem insert_edge_spec_witness:
  "is_node ex_graph 2 \<and> is_node ex_graph 1 \<and> (2, 1, None) \<notin> set (contents ex_heap ex_graph)
   \<and> allocated ex_heap ex_graph
   \<and> fst (insert_edge ex_heap ex_graph 2 1 None) = Inr True
   \<and> cells (fst (snd (insert_edge ex_heap ex_graph 2 1 None))) 2 = Unweighted_edge 2 1
   \<and> mset (contents (fst (snd (insert_edge ex_heap ex_graph 2 1 None)))
                     (snd (snd (insert_edge ex_heap ex_graph 2 1 None))))
       = {#(1, 3, Some 2), (2, 3, Some 2), (2, 1, None)#}
   \<and> \<not> is_node ex_graph 7
   \<and> insert_edge ex_heap ex_graph 7 1 None = (Inl (Runtime_error insert_edge_msg), ex_heap, ex_graph)
   \<and> insert_edge ex_heap ex_graph 1 3 (Some 2) = (Inr False, ex_heap, ex_graph)"
  using insert_edge_spec [of ex_heap ex_graph 2 1 None
      "fst (insert_edge ex_heap ex_graph 2 1 None)" "fst (snd (insert_edge ex_heap ex_graph 2 1 None))"
      "snd (snd (insert_edge ex_heap ex_graph 2 1 None))"]
    insert_edge_spec [of ex_heap ex_graph 7 1 None
      "fst (insert_edge ex_heap ex_graph 7 1 None)" "fst (snd (insert_edge ex_heap ex_graph 7 1 None))"
      "snd (snd (insert_edge ex_heap ex_graph 7 1 None))"]
    insert_edge_spec [of ex_heap ex_graph 1 3 "Some 2"
      "fst (insert_edge ex_heap ex_graph 1 3 (Some 2))" "fst (snd (insert_edge ex_heap ex_graph 1 3 (Some 2)))"
      "snd (snd (insert_edge ex_heap ex_graph 1 3 (Some 2)))"]
  apply (simp add: contents_ex)
  apply (simp add: is_node_def allocated_def ex_graph_def)
  apply (simp add: ex_heap_def prod_eq_iff)
  done

section \<open>Renaming a node\<close>

lemma value_type_rename_ends:
  "value_type (cells (rename_ends h e old new) a) =
     (if a = e then renamed old new (value_type (cells h a)) else value_type (cells h a))"
  by (cases "cells h e") (auto simp: rename_ends_def replace_at_def value_type_def Let_def)

lemma renamed_idem: "renamed old new (renamed old new t) = renamed old new t"
  by (cases t) auto

lemma value_type_replace_loop:
  "value_type (cells (replace_loop h es old new) a) =
     (if a \<in> set es then renamed old new (value_type (cells h a)) else value_type (cells h a))"
  by (induction es arbitrary: h) (auto simp: value_type_rename_ends renamed_idem)

lemma contents_replace_loop:
  "contents (replace_loop h (m_edges g) old new) g = map (renamed old new) (contents h g)"
  by (simp add: contents_def value_type_replace_loop)

text \<open>
  C6. \<open>replace_node(old, new)\<close> throws, with the graph unchanged, when \<open>old\<close> is not a node,
  and returns false, with the graph unchanged, when \<open>new\<close> is a node. Otherwise it returns
  true, the node set loses \<open>old\<close> and gains \<open>new\<close>, every edge shows \<open>new\<close> at each end where
  it showed \<open>old\<close> (at both for a self-loop), no edge is dropped (the edges after the call
  are, with multiplicity, the renamed edges before it), and the edges are in the order I3.
\<close>

theorem replace_node_spec:
  assumes "replace_node h g old_data new_data = (r, h', g')"
  shows "(\<not> is_node g old_data \<longrightarrow>
            r = Inl (Runtime_error replace_node_msg) \<and> h' = h \<and> g' = g)
       \<and> (is_node g old_data \<and> is_node g new_data \<longrightarrow> r = Inr False \<and> h' = h \<and> g' = g)
       \<and> (is_node g old_data \<and> \<not> is_node g new_data \<longrightarrow>
            r = Inr True
            \<and> m_nodes g' = insert new_data (m_nodes g - {old_data})
            \<and> mset (contents h' g') = image_mset (renamed old_data new_data) (mset (contents h g))
            \<and> length (contents h' g') = length (contents h g)
            \<and> I3 h' g')"
proof (intro conjI impI)
  assume "\<not> is_node g old_data"
  with assms show "r = Inl (Runtime_error replace_node_msg)" "h' = h" "g' = g"
    by (auto simp: replace_node_def)
next
  assume "is_node g old_data \<and> is_node g new_data"
  with assms show "r = Inr False" "h' = h" "g' = g"
    by (auto simp: replace_node_def)
next
  assume a: "is_node g old_data \<and> \<not> is_node g new_data"
  define g1 where "g1 = g\<lparr>m_nodes := insert new_data (m_nodes g - {old_data})\<rparr>"
  define h1 where "h1 = replace_loop h (m_edges g1) old_data new_data"
  from a assms have r: "r = Inr True" and h': "h' = h1" and g': "g' = sortedges h1 g1"
    by (auto simp: replace_node_def Let_def h1_def g1_def)
  have c: "contents h1 g1 = map (renamed old_data new_data) (contents h g)"
    using contents_replace_loop[of h g1 old_data new_data]
    by (simp add: h1_def) (simp add: contents_def g1_def)
  show "r = Inr True" by (rule r)
  show "m_nodes g' = insert new_data (m_nodes g - {old_data})"
    by (simp add: g' m_nodes_sortedges g1_def)
  show "mset (contents h' g') = image_mset (renamed old_data new_data) (mset (contents h g))"
    by (simp add: h' g' contents_sortedges c)
  show "length (contents h' g') = length (contents h g)"
    by (simp add: h' g' contents_sortedges c)
  show "I3 h' g'" by (simp add: h' g' I3_sortedges)
qed

theorem replace_node_spec_witness:
  "is_node ex_graph 1 \<and> \<not> is_node ex_graph 5
   \<and> fst (replace_node ex_heap ex_graph 1 5) = Inr True
   \<and> m_nodes (snd (snd (replace_node ex_heap ex_graph 1 5))) = {2, 3, 5}
   \<and> mset (contents (fst (snd (replace_node ex_heap ex_graph 1 5)))
                     (snd (snd (replace_node ex_heap ex_graph 1 5))))
       = {#(5, 3, Some 2), (2, 3, Some 2)#}
   \<and> \<not> is_node ex_graph 7
   \<and> replace_node ex_heap ex_graph 7 1 = (Inl (Runtime_error replace_node_msg), ex_heap, ex_graph)
   \<and> replace_node ex_heap ex_graph 1 2 = (Inr False, ex_heap, ex_graph)"
  using replace_node_spec [of ex_heap ex_graph 1 5
      "fst (replace_node ex_heap ex_graph 1 5)" "fst (snd (replace_node ex_heap ex_graph 1 5))"
      "snd (snd (replace_node ex_heap ex_graph 1 5))"]
    replace_node_spec [of ex_heap ex_graph 7 1
      "fst (replace_node ex_heap ex_graph 7 1)" "fst (snd (replace_node ex_heap ex_graph 7 1))"
      "snd (snd (replace_node ex_heap ex_graph 7 1))"]
    replace_node_spec [of ex_heap ex_graph 1 2
      "fst (replace_node ex_heap ex_graph 1 2)" "fst (snd (replace_node ex_heap ex_graph 1 2))"
      "snd (snd (replace_node ex_heap ex_graph 1 2))"]
  apply (simp add: contents_ex)
  apply (simp add: is_node_def ex_graph_def prod_eq_iff)
  apply auto
  done

section \<open>Erasing at positions\<close>

lemma sortedges_sublist:
  assumes "I3 h g" "sorted (map (\<lambda>a. value_type (cells h a)) es)"
  shows "sortedges h (g\<lparr>m_edges := es\<rparr>) = g\<lparr>m_edges := es\<rparr>"
  by (rule sortedges_id) (simp add: I3_sorted contents_def assms)

lemma sorted_take_drop:
  fixes xs :: "('a::linorder) list"
  assumes "sorted xs" "i \<le> s"
  shows "sorted (take i xs @ drop s xs)"
proof -
  have "\<forall>x\<in>set (take i xs). \<forall>y\<in>set (drop s xs). x \<le> y"
  proof (intro ballI)
    fix x y assume "x \<in> set (take i xs)" "y \<in> set (drop s xs)"
    then obtain j k where j: "j < length (take i xs)" "x = take i xs ! j"
      and k: "k < length (drop s xs)" "y = drop s xs ! k"
      by (auto simp: in_set_conv_nth)
    then have "x = xs ! j" "y = xs ! (s + k)" "j \<le> s + k" "s + k < length xs"
      using assms(2) by auto
    with assms(1) show "x \<le> y" by (simp add: sorted_nth_mono)
  qed
  with assms(1) show ?thesis
    by (simp add: sorted_append)
qed

lemma erase_range_sorted:
  assumes "I3 h g" "i \<le> s"
  shows "sortedges h (g\<lparr>m_edges := take i (m_edges g) @ drop s (m_edges g)\<rparr>)
         = g\<lparr>m_edges := take i (m_edges g) @ drop s (m_edges g)\<rparr>"
proof (rule sortedges_sublist[OF assms(1)])
  from assms(1) have "sorted (map (\<lambda>a. value_type (cells h a)) (m_edges g))"
    by (simp add: I3_sorted contents_def)
  from sorted_take_drop[OF this assms(2)]
  show "sorted (map (\<lambda>a. value_type (cells h a)) (take i (m_edges g) @ drop s (m_edges g)))"
    by (simp add: take_map drop_map)
qed

text \<open>
  Erasing at positions on a graph whose edges are in the order I3: \<open>erase_edge(i)\<close> at a
  position that can be dereferenced removes the edge at that position and no other, and returns the position of
  the edge that followed it (the end when none followed). \<open>erase_edge(i, s)\<close> on a range
  removes the edges at the positions from \<open>i\<close> up to \<open>s\<close>, \<open>s\<close> excluded, and returns the
  position that now shows the edge that was at \<open>s\<close> (the end when \<open>s\<close> was the end).
\<close>

theorem erase_edge_positions:
  assumes "I3 h g"
  shows "(i < length (m_edges g) \<longrightarrow>
           (case erase_edge_it h g i of (res, h', g') \<Rightarrow>
              h' = h \<and> m_nodes g' = m_nodes g
              \<and> contents h' g' = take i (contents h g) @ drop (Suc i) (contents h g)
              \<and> res = i
              \<and> (Suc i < length (m_edges g) \<longrightarrow> contents h' g' ! res = contents h g ! Suc i)
              \<and> (Suc i = length (m_edges g) \<longrightarrow> res = length (m_edges g'))))
       \<and> (i \<le> s \<and> s \<le> length (m_edges g) \<longrightarrow>
           (case erase_edge_range h g i s of (res, h', g') \<Rightarrow>
              h' = h \<and> m_nodes g' = m_nodes g
              \<and> contents h' g' = take i (contents h g) @ drop s (contents h g)
              \<and> res = i
              \<and> (s < length (m_edges g) \<longrightarrow> contents h' g' ! res = contents h g ! s)
              \<and> (s = length (m_edges g) \<longrightarrow> res = length (m_edges g'))))"
proof (intro conjI impI)
  assume i: "i < length (m_edges g)"
  have e: "erase_edge_it h g i = (i, h, g\<lparr>m_edges := take i (m_edges g) @ drop (Suc i) (m_edges g)\<rparr>)"
    using erase_range_sorted[OF assms, of i "Suc i"]
    by (simp add: erase_edge_it_def vec_erase_def)
  show "case erase_edge_it h g i of (res, h', g') \<Rightarrow>
              h' = h \<and> m_nodes g' = m_nodes g
              \<and> contents h' g' = take i (contents h g) @ drop (Suc i) (contents h g)
              \<and> res = i
              \<and> (Suc i < length (m_edges g) \<longrightarrow> contents h' g' ! res = contents h g ! Suc i)
              \<and> (Suc i = length (m_edges g) \<longrightarrow> res = length (m_edges g'))"
    using i by (simp add: e contents_def take_map drop_map nth_append min_def)
next
  assume s: "i \<le> s \<and> s \<le> length (m_edges g)"
  have e: "erase_edge_range h g i s = (i, h, g\<lparr>m_edges := take i (m_edges g) @ drop s (m_edges g)\<rparr>)"
    using erase_range_sorted[OF assms, of i s] s
    by (simp add: erase_edge_range_def vec_erase_range_def)
  show "case erase_edge_range h g i s of (res, h', g') \<Rightarrow>
              h' = h \<and> m_nodes g' = m_nodes g
              \<and> contents h' g' = take i (contents h g) @ drop s (contents h g)
              \<and> res = i
              \<and> (s < length (m_edges g) \<longrightarrow> contents h' g' ! res = contents h g ! s)
              \<and> (s = length (m_edges g) \<longrightarrow> res = length (m_edges g'))"
    using s by (simp add: e contents_def take_map drop_map nth_append min_def)
qed

theorem erase_edge_positions_witness:
  "I3 ex_heap ex_graph \<and> 0 < length (m_edges ex_graph)
   \<and> contents (fst (snd (erase_edge_it ex_heap ex_graph 0))) (snd (snd (erase_edge_it ex_heap ex_graph 0)))
       = [(2, 3, Some 2)]
   \<and> fst (erase_edge_it ex_heap ex_graph 0) = 0
   \<and> contents (fst (snd (erase_edge_range ex_heap ex_graph 0 1))) (snd (snd (erase_edge_range ex_heap ex_graph 0 1)))
       = [(2, 3, Some 2)]"
  using erase_edge_positions [OF I3_ex, of 0 1] I3_ex
  by (simp add: contents_ex split: prod.splits) (simp add: ex_graph_def)

section \<open>Reading the edges between two nodes\<close>

lemma sorted_same_ends:
  assumes "sorted (map f xs)" "\<forall>x \<in> set xs. g x = (s, d, f x)"
  shows "sorted (map g xs)"
proof -
  from assms(1) have "sorted_wrt (\<lambda>x y. f x \<le> f y) xs" by (simp add: sorted_map)
  then have "sorted_wrt (\<lambda>x y. g x \<le> g y) xs"
    by (rule sorted_wrt_mono_rel[rotated]) (simp add: assms(2))
  then show ?thesis by (simp add: sorted_map)
qed

lemma edges_contents:
  assumes "is_node g s" "is_node g d"
  shows "\<exists>es. edges h g s d = Inr es
      \<and> map (\<lambda>a. value_type (cells h a)) es
          = sort (filter (\<lambda>t. fst t = s \<and> fst (snd t) = d) (contents h g))"
proof -
  let ?P = "\<lambda>e. fst (get_nodes (cells h e)) = s \<and> snd (get_nodes (cells h e)) = d"
  let ?es = "sort_key (\<lambda>a. get_weight (cells h a)) (filter ?P (m_edges g))"
  have e: "edges h g s d = Inr ?es"
    using assms
    by (simp add: edges_def Let_def std_sort_key[where f = "\<lambda>a. get_weight (cells h a)"])
  have "sorted (map (\<lambda>a. get_weight (cells h a)) ?es)" by simp
  then have s: "sorted (map (\<lambda>a. value_type (cells h a)) ?es)"
    by (rule sorted_same_ends[where s = s and d = d]) (auto simp: value_type_def)
  have m: "mset (map (\<lambda>a. value_type (cells h a)) ?es)
      = mset (filter (\<lambda>t. fst t = s \<and> fst (snd t) = d) (contents h g))"
    by (simp add: contents_def filter_map comp_def value_type_def)
  from properties_for_sort[OF m s] e show ?thesis by simp
qed

lemma edges_length:
  fixes h :: "('n::linorder, 'e::linorder) heap"
  assumes "is_node g s" "is_node g d"
  shows "\<exists>es. edges h g s d = Inr es
      \<and> length es = length (filter (\<lambda>t. fst t = s \<and> fst (snd t) = d) (contents h g))"
proof -
  from edges_contents[OF assms, of h] obtain es where
    e: "edges h g s d = Inr es" and
    m: "map (\<lambda>a. value_type (cells h a)) es
          = sort (filter (\<lambda>t. fst t = s \<and> fst (snd t) = d) (contents h g))" by blast
  from m have "length (map (\<lambda>a. value_type (cells h a)) es)
      = length (sort (filter (\<lambda>t. fst t = s \<and> fst (snd t) = d) (contents h g)))" by simp
  with e show ?thesis by simp
qed

section \<open>Merging a node into another\<close>

lemma find_loop_eq_iff:
  assumes "i < length es" "value_type (cells h (es ! i)) = (s, d, w)"
  shows "(find_loop h es s d w = i) = ((s, d, w) \<notin> set (take i (map (\<lambda>a. value_type (cells h a)) es)))"
proof
  assume f: "find_loop h es s d w = i"
  show "(s, d, w) \<notin> set (take i (map (\<lambda>a. value_type (cells h a)) es))"
  proof
    assume "(s, d, w) \<in> set (take i (map (\<lambda>a. value_type (cells h a)) es))"
    then obtain j where "j < i" "j < length es" "value_type (cells h (es ! j)) = (s, d, w)"
      by (auto simp: in_set_conv_nth)
    with find_loop_first[of j h es s d w] f show False by simp
  qed
next
  assume n: "(s, d, w) \<notin> set (take i (map (\<lambda>a. value_type (cells h a)) es))"
  let ?f = "find_loop h es s d w"
  have "\<not> i < ?f" using find_loop_first[of i h es s d w] assms by auto
  moreover have "\<not> ?f < i"
  proof
    assume l: "?f < i"
    then have "?f < length es" using assms(1) by simp
    from find_loop_nth[OF this] l assms(1) n show False
      by (auto simp: in_set_conv_nth)
  qed
  ultimately show "?f = i" by simp
qed

lemma merge_loop_end: "\<not> e < length es \<Longrightarrow> merge_loop h es e old new = (h, es)"
  by (subst merge_loop.simps) simp

lemma merge_loop_step:
  assumes "e < length es"
  shows "merge_loop h es e old new =
    (let h' = rename_ends h (es ! e) old new in
     if value_type (cells h' (es ! e)) \<in> set (take e (map (\<lambda>a. value_type (cells h' a)) es))
     then merge_loop h' (vec_erase es e) e old new
     else merge_loop h' es (Suc e) old new)"
proof -
  define h' where "h' = rename_ends h (es ! e) old new"
  obtain s d w where t: "value_type (cells h' (es ! e)) = (s, d, w)"
    by (cases "value_type (cells h' (es ! e))")
  then have sd: "get_nodes (cells h' (es ! e)) = (s, d)" "get_weight (cells h' (es ! e)) = w"
    by (auto simp: value_type_def prod_eq_iff)
  show ?thesis
    using assms find_loop_eq_iff[OF assms t]
    by (subst merge_loop.simps) (simp add: Let_def h'_def[symmetric] sd t)
qed

lemma value_type_rename_fix:
  assumes "\<forall>t \<in> set (take e (map (\<lambda>a. value_type (cells h a)) es)). renamed old new t = t"
  shows "take e (map (\<lambda>a. value_type (cells (rename_ends h x old new) a)) es)
          = take e (map (\<lambda>a. value_type (cells h a)) es)"
proof (rule nth_equalityI)
  show "length (take e (map (\<lambda>a. value_type (cells (rename_ends h x old new) a)) es))
      = length (take e (map (\<lambda>a. value_type (cells h a)) es))" by simp
next
  fix j assume "j < length (take e (map (\<lambda>a. value_type (cells (rename_ends h x old new) a)) es))"
  then have j: "j < e" "j < length es" by simp_all
  then have "value_type (cells h (es ! j)) \<in> set (take e (map (\<lambda>a. value_type (cells h a)) es))"
    by (auto simp: in_set_conv_nth intro!: exI[of _ j])
  with assms have "renamed old new (value_type (cells h (es ! j))) = value_type (cells h (es ! j))"
    by blast
  with j show "take e (map (\<lambda>a. value_type (cells (rename_ends h x old new) a)) es) ! j
      = take e (map (\<lambda>a. value_type (cells h a)) es) ! j"
    by (auto simp: value_type_rename_ends)
qed

lemma map_renamed_rename_ends:
  "map (renamed old new) (map (\<lambda>a. value_type (cells (rename_ends h x old new) a)) es)
    = map (renamed old new) (map (\<lambda>a. value_type (cells h a)) es)"
  by (simp add: value_type_rename_ends renamed_idem)

lemma merge_loop_contents:
  assumes "e \<le> length es"
    and "\<forall>t \<in> set (take e (map (\<lambda>a. value_type (cells h a)) es)). renamed old new t = t"
  shows "map (\<lambda>a. value_type (cells (fst (merge_loop h es e old new)) a)) (snd (merge_loop h es e old new))
    = absorb (take e (map (\<lambda>a. value_type (cells h a)) es))
        (map (renamed old new) (drop e (map (\<lambda>a. value_type (cells h a)) es)))"
  using assms
proof (induction "length es - e" arbitrary: h es e rule: less_induct)
  case less
  let ?V = "map (\<lambda>a. value_type (cells h a)) es"
  show ?case
  proof (cases "e < length es")
    case False
    with less.prems(1) show ?thesis by (simp add: merge_loop_end)
  next
    case True
    define h' where "h' = rename_ends h (es ! e) old new"
    let ?V' = "map (\<lambda>a. value_type (cells h' a)) es"
    let ?t = "renamed old new (?V ! e)"
    have tk: "take e ?V' = take e ?V"
      unfolding h'_def by (rule value_type_rename_fix[OF less.prems(2)])
    have mp: "map (renamed old new) ?V' = map (renamed old new) ?V"
      unfolding h'_def by (rule map_renamed_rename_ends)
    have te: "value_type (cells h' (es ! e)) = ?t"
      using True by (simp add: h'_def value_type_rename_ends)
    have dr: "map (renamed old new) (drop e ?V) = ?t # map (renamed old new) (drop (Suc e) ?V)"
      using True by (simp add: Cons_nth_drop_Suc[symmetric])
    have dr': "map (renamed old new) (drop (Suc e) ?V') = map (renamed old new) (drop (Suc e) ?V)"
      using mp by (metis drop_map)
    show ?thesis
    proof (cases "?t \<in> set (take e ?V)")
      case in_prefix: True
      let ?es = "vec_erase es e"
      have l: "length ?es - e < length es - e" "e \<le> length ?es"
        using True by (simp_all add: vec_erase_def)
      have v: "map (\<lambda>a. value_type (cells h' a)) ?es = take e ?V' @ drop (Suc e) ?V'"
        by (simp add: vec_erase_def take_map drop_map)
      have tk2: "take e (map (\<lambda>a. value_type (cells h' a)) ?es) = take e ?V"
        using True by (simp add: v tk[symmetric])
      have dr2: "drop e (map (\<lambda>a. value_type (cells h' a)) ?es) = drop (Suc e) ?V'"
        using True by (simp add: v)
      have fx: "\<forall>t \<in> set (take e (map (\<lambda>a. value_type (cells h' a)) ?es)). renamed old new t = t"
        using less.prems(2) by (simp only: tk2)
      have "merge_loop h es e old new = merge_loop h' ?es e old new"
        using True in_prefix by (simp add: merge_loop_step h'_def[symmetric] te tk Let_def)
      then show ?thesis
        using less.hyps[OF l(1) l(2) fx] in_prefix
        by (simp only: tk2 dr2 dr' dr absorb.simps if_True)
    next
      case not_in: False
      have l: "length es - Suc e < length es - e" "Suc e \<le> length es"
        using True by simp_all
      have tk2: "take (Suc e) ?V' = take e ?V @ [?t]"
        using True te by (simp add: take_Suc_conv_app_nth tk[symmetric])
      have fx: "\<forall>t \<in> set (take (Suc e) ?V'). renamed old new t = t"
        using less.prems(2) by (simp only: tk2) (auto simp: renamed_idem)
      have "merge_loop h es e old new = merge_loop h' es (Suc e) old new"
        using True not_in by (simp add: merge_loop_step h'_def[symmetric] te tk Let_def)
      then show ?thesis
        using less.hyps[OF l(1) l(2) fx] not_in
        by (simp only: tk2 dr' dr absorb.simps if_False)
    qed
  qed
qed

lemma distinct_absorb: "distinct kept \<Longrightarrow> distinct (absorb kept xs)"
  by (induction xs arbitrary: kept) auto

lemma merge_replace_node_ok:
  assumes "is_node g old_data" "is_node g new_data"
  shows "\<exists>h' g'. merge_replace_node h g old_data new_data = (Inr (), h', g')
      \<and> m_nodes g' = m_nodes g
      \<and> contents h' g' = sort (keep_first (map (renamed old_data new_data) (contents h g)))"
proof -
  obtain h1 es1 where m: "merge_loop h (m_edges g) 0 old_data new_data = (h1, es1)"
    by (cases "merge_loop h (m_edges g) 0 old_data new_data")
  from merge_loop_contents[of 0 "m_edges g" h old_data new_data]
  have c: "contents h1 (g\<lparr>m_edges := es1\<rparr>) = keep_first (map (renamed old_data new_data) (contents h g))"
    by (simp add: m contents_def keep_first_def)
  have "merge_replace_node h g old_data new_data = (Inr (), h1, sortedges h1 (g\<lparr>m_edges := es1\<rparr>))"
    using assms by (simp add: merge_replace_node_def m)
  moreover have "m_nodes (sortedges h1 (g\<lparr>m_edges := es1\<rparr>)) = m_nodes g"
    by (simp add: m_nodes_sortedges)
  moreover have "contents h1 (sortedges h1 (g\<lparr>m_edges := es1\<rparr>))
      = sort (keep_first (map (renamed old_data new_data) (contents h g)))"
    by (simp add: contents_sortedges c)
  ultimately show ?thesis by blast
qed

lemma mset_two: "mset xs = {#a, b#} \<Longrightarrow> xs = [a, b] \<or> xs = [b, a]"
proof -
  assume m: "mset xs = {#a, b#}"
  then have "length xs = 2" by (metis size_mset size_add_mset size_empty numeral_2_eq_2)
  then obtain x y where xs: "xs = [x, y]"
    by (cases xs; cases "tl xs") (auto simp: numeral_2_eq_2)
  with m show ?thesis
    by (auto simp: add_eq_conv_ex)
qed

lemma merge_example:
  assumes "A \<noteq> B" "A \<noteq> C" "is_node g A" "is_node g B" "is_node g C"
    and "mset (contents h g) = {#(A, C, Some w), (B, C, Some w)#}"
    and "merge_replace_node h g A B = (r, h', g')"
  shows "\<exists>x. edges h' g' B C = Inr [x]"
proof -
  from merge_replace_node_ok[OF assms(3,4), of h] assms(7)
  have n: "m_nodes g' = m_nodes g"
    and c: "contents h' g' = sort (keep_first (map (renamed A B) (contents h g)))" by auto
  from mset_two[OF assms(6)] assms(1,2)
  have "keep_first (map (renamed A B) (contents h g)) = [(B, C, Some w)]"
    by (auto simp: keep_first_def)
  with c have c': "contents h' g' = [(B, C, Some w)]" by simp
  have "is_node g' B" "is_node g' C" using assms(4,5) n by (simp_all add: is_node_def)
  from edges_length[OF this, of h'] c' show ?thesis
    by (auto simp: length_Suc_conv)
qed

text \<open>
  C4. \<open>merge_replace_node(old, new)\<close> throws, with the graph unchanged, when \<open>old\<close> or \<open>new\<close>
  is not a node. Otherwise the node set is unchanged (\<open>old\<close> stays a node) and the edges
  after the call are the edges before it with every end \<open>old\<close> renamed to \<open>new\<close>, where an
  edge that, once renamed, shows the source, destination and weight of an edge earlier in
  the iteration order is dropped and the earlier one kept; no two edges are then
  duplicates, and the edges are in the order I3. In particular, when the edges are
  \<open>old \<rightarrow> c\<close> and \<open>new \<rightarrow> c\<close> with the same weight, for nodes where \<open>old\<close> is neither \<open>new\<close>
  nor \<open>c\<close>, \<open>edges(new, c)\<close> has length 1 after the call.
\<close>

theorem merge_replace_node_spec:
  assumes "merge_replace_node h g old_data new_data = (r, h', g')"
  shows "(\<not> (is_node g old_data \<and> is_node g new_data) \<longrightarrow>
            r = Inl (Runtime_error merge_replace_node_msg) \<and> h' = h \<and> g' = g)
       \<and> (is_node g old_data \<and> is_node g new_data \<longrightarrow>
            r = Inr () \<and> m_nodes g' = m_nodes g \<and> is_node g' old_data
            \<and> mset (contents h' g')
                = mset (keep_first (map (renamed old_data new_data) (contents h g)))
            \<and> I2 h' g' \<and> I3 h' g')
       \<and> (is_node g old_data \<and> is_node g new_data \<and> is_node g c
            \<and> old_data \<noteq> new_data \<and> old_data \<noteq> c
            \<and> mset (contents h g) = {#(old_data, c, Some w), (new_data, c, Some w)#} \<longrightarrow>
            (\<exists>x. edges h' g' new_data c = Inr [x]))"
proof (intro conjI impI)
  assume "\<not> (is_node g old_data \<and> is_node g new_data)"
  with assms show "r = Inl (Runtime_error merge_replace_node_msg)" "h' = h" "g' = g"
    by (auto simp: merge_replace_node_def)
next
  assume a: "is_node g old_data \<and> is_node g new_data"
  with merge_replace_node_ok[of g old_data new_data h] assms
  have r: "r = Inr ()" and n: "m_nodes g' = m_nodes g"
    and c: "contents h' g' = sort (keep_first (map (renamed old_data new_data) (contents h g)))"
    by auto
  show "r = Inr ()" by (rule r)
  show "m_nodes g' = m_nodes g" by (rule n)
  show "is_node g' old_data" using a n by (simp add: is_node_def)
  show "mset (contents h' g') = mset (keep_first (map (renamed old_data new_data) (contents h g)))"
    by (simp add: c)
  show "I2 h' g'" by (simp add: I2_def c keep_first_def distinct_absorb)
  show "I3 h' g'" by (simp add: I3_sorted c)
next
  assume "is_node g old_data \<and> is_node g new_data \<and> is_node g c
            \<and> old_data \<noteq> new_data \<and> old_data \<noteq> c
            \<and> mset (contents h g) = {#(old_data, c, Some w), (new_data, c, Some w)#}"
  with merge_example[of old_data new_data c g h w r h' g'] assms
  show "\<exists>x. edges h' g' new_data c = Inr [x]" by blast
qed

lemma is_node_ex: "is_node ex_graph 1" "is_node ex_graph 2" "is_node ex_graph 3" "\<not> is_node ex_graph 7"
  by (simp_all add: is_node_def ex_graph_def)

theorem merge_replace_node_spec_witness:
  "is_node ex_graph 1 \<and> is_node ex_graph 2 \<and> is_node ex_graph 3
   \<and> mset (contents ex_heap ex_graph) = {#(1, 3, Some 2), (2, 3, Some 2)#}
   \<and> fst (merge_replace_node ex_heap ex_graph 1 2) = Inr ()
   \<and> is_node (snd (snd (merge_replace_node ex_heap ex_graph 1 2))) 1
   \<and> mset (contents (fst (snd (merge_replace_node ex_heap ex_graph 1 2)))
                     (snd (snd (merge_replace_node ex_heap ex_graph 1 2))))
       = {#(2, 3, Some 2)#}
   \<and> (\<exists>x. edges (fst (snd (merge_replace_node ex_heap ex_graph 1 2)))
                  (snd (snd (merge_replace_node ex_heap ex_graph 1 2))) 2 3 = Inr [x])
   \<and> \<not> is_node ex_graph 7
   \<and> merge_replace_node ex_heap ex_graph 7 2
       = (Inl (Runtime_error merge_replace_node_msg), ex_heap, ex_graph)"
  using merge_replace_node_spec [of ex_heap ex_graph 1 2
      "fst (merge_replace_node ex_heap ex_graph 1 2)"
      "fst (snd (merge_replace_node ex_heap ex_graph 1 2))"
      "snd (snd (merge_replace_node ex_heap ex_graph 1 2))" 3 2]
    merge_replace_node_spec [of ex_heap ex_graph 7 2
      "fst (merge_replace_node ex_heap ex_graph 7 2)"
      "fst (snd (merge_replace_node ex_heap ex_graph 7 2))"
      "snd (snd (merge_replace_node ex_heap ex_graph 7 2))" 3 2]
    is_node_ex
  by (simp add: contents_ex keep_first_def prod_eq_iff)

section \<open>Merging a node into itself\<close>








section \<open>Copying a graph, and what the copy shares\<close>

lemma graph_eq_copy: "graph_eq h g (copy_graph g)"
  by (auto simp: graph_eq_def copy_graph_def Let_def find_edge_end contents_def value_type_def)

lemma replace_node_on_copy:
  assumes "is_node g old_data" "\<not> is_node g new_data"
  shows "contents (fst (snd (replace_node h (copy_graph g) old_data new_data))) g
          = map (renamed old_data new_data) (contents h g)"
  using assms contents_replace_loop[of h g old_data new_data]
  by (simp add: replace_node_def copy_graph_def is_node_def Let_def)

text \<open>
  C1. A copy compares equal to the graph it was copied from, but it holds the same edge
  objects: on the concrete graph with the edges 1 \<rightarrow> 3 and 2 \<rightarrow> 3, \<open>replace_node(1, 5)\<close>
  called on the copy succeeds, and the original, on which nothing was called, then shows
  the edge 5 \<rightarrow> 3 where it showed 1 \<rightarrow> 3, although 5 is not one of its nodes.
\<close>

theorem copy_shares_edge_objects:
  "graph_eq ex_heap ex_graph ex_copy
   \<and> fst ex_renamed = Inr True
   \<and> contents ex_heap ex_graph = [(1, 3, Some 2), (2, 3, Some 2)]
   \<and> contents (fst (snd ex_renamed)) ex_graph = [(5, 3, Some 2), (2, 3, Some 2)]
   \<and> 5 \<notin> m_nodes ex_graph"
  by code_simp

text \<open>
  C3. The edges of a graph do not stay in the order I3: the concrete graph has its edges
  in that order, \<open>replace_node(1, 5)\<close> called on its copy succeeds, and the edges of the
  graph itself, on which no operation was called, are then 5 \<rightarrow> 3 followed by 2 \<rightarrow> 3, which
  is not ascending by source.
\<close>

theorem copy_breaks_order:
  "I3 ex_heap ex_graph
   \<and> fst ex_renamed = Inr True
   \<and> \<not> I3 (fst (snd ex_renamed)) ex_graph"
  by code_simp

text \<open>
  C7. On the second concrete graph, after \<open>replace_node(1, 5)\<close> was called on its copy, the
  graph shows 5 \<rightarrow> 2, 5 \<rightarrow> 3, 2 \<rightarrow> 3. \<open>erase_edge\<close> at its first position erases 5 \<rightarrow> 2,
  sorts what is left and returns the first position, which now shows 2 \<rightarrow> 3 and not 5 \<rightarrow> 3,
  the edge that followed the erased one.
\<close>

theorem erase_after_copy_rename:
  "I3 ex3_heap ex3_graph
   \<and> fst ex3_renamed = Inr True
   \<and> contents (fst (snd ex3_renamed)) ex3_graph = [(5, 2, None), (5, 3, Some 2), (2, 3, Some 2)]
   \<and> fst ex3_erased = 0
   \<and> contents (fst (snd ex3_erased)) (snd (snd ex3_erased)) = [(2, 3, Some 2), (5, 3, Some 2)]
   \<and> contents (fst (snd ex3_erased)) (snd (snd ex3_erased)) ! fst ex3_erased = (2, 3, Some 2)"
  by code_simp

text \<open>
  C8. On the concrete graph, after \<open>replace_node(3, 5)\<close> was called on its copy, the graph
  shows 1 \<rightarrow> 5 and 2 \<rightarrow> 5 although 5 is not one of its nodes, and \<open>operator<<\<close> writes no dump:
  \<open>edges(1, 5)\<close> throws inside the \<open>noexcept\<close> operator.
\<close>

theorem dump_after_copy_rename:
  "fst ex_renamed_dst = Inr True
   \<and> contents (fst (snd ex_renamed_dst)) ex_graph = [(1, 5, Some 2), (2, 5, Some 2)]
   \<and> 5 \<notin> m_nodes ex_graph
   \<and> operator_out ex_show (\<lambda>w. ex_show (nat w)) (fst (snd ex_renamed_dst)) ex_graph
        = Inl (Runtime_error edges_msg)"
  by code_simp

section \<open>An unweighted and a weighted edge between the same nodes\<close>

lemma allocated_ex: "allocated ex_heap ex_graph"
  by (simp add: allocated_def ex_heap_def ex_graph_def)

lemma insert_edge_contents:
  assumes "allocated h g" "is_node g s" "is_node g d" "(s, d, w) \<notin> set (contents h g)"
    and "insert_edge h g s d w = (r, h', g')"
  shows "r = Inr True" "contents h' g' = sort (contents h g @ [(s, d, w)])"
    "allocated h' g'" "m_nodes g' = m_nodes g"
proof -
  define e :: "('a, 'b) edge" where
    "e = (case w of None \<Rightarrow> Unweighted_edge s d | Some x \<Rightarrow> Weighted_edge s d x)"
  define h1 where "h1 = h\<lparr>cells := (cells h)(fresh h := e), fresh := Suc (fresh h)\<rparr>"
  define g1 where "g1 = g\<lparr>m_edges := m_edges g @ [fresh h]\<rparr>"
  from assms(2-5) have r: "r = Inr True" and h': "h' = h1" and g': "g' = sortedges h1 g1"
    by (auto simp: insert_edge_new Let_def e_def h1_def g1_def)
  show "r = Inr True" by (rule r)
  show "contents h' g' = sort (contents h g @ [(s, d, w)])"
    using contents_alloc[OF assms(1), of e]
    by (simp add: h' g' contents_sortedges h1_def g1_def e_def value_type_new)
  show "allocated h' g'"
    using assms(1) by (auto simp: h' g' allocated_def m_edges_sortedges h1_def g1_def)
  show "m_nodes g' = m_nodes g" by (simp add: g' m_nodes_sortedges g1_def)
qed

lemma value_type_unweighted: "value_type e = (a, b, None) \<Longrightarrow> e = Unweighted_edge a b"
  by (cases e) (simp_all add: value_type_def)

lemma value_type_weighted: "value_type e = (a, b, Some w) \<Longrightarrow> e = Weighted_edge a b w"
  by (cases e) (simp_all add: value_type_def)

lemma edges_sorted_weight:
  fixes h :: "('n::linorder, 'e::linorder) heap"
  assumes "is_node g s" "is_node g d"
  shows "\<exists>es. edges h g s d = Inr es \<and> sorted_wrt weight_le (map (\<lambda>e. get_weight (cells h e)) es)"
proof -
  have "weight_le = ((\<le>) :: 'e option \<Rightarrow> _)" by (intro ext) (rule weight_le_iff)
  then show ?thesis using assms
    by (simp add: edges_def Let_def std_sort_key[where f = "\<lambda>a. get_weight (cells h a)"])
qed

text \<open>
  C9. On a graph with the nodes \<open>a\<close> and \<open>b\<close> and no edge from \<open>a\<close> to \<open>b\<close>, \<open>insert_edge(a, b)\<close>
  and then \<open>insert_edge(a, b, w)\<close> both return true, and \<open>edges(a, b)\<close> is then a sequence of
  length 2, the unweighted edge first and the weighted edge second. On every graph and for
  every two of its nodes, \<open>edges\<close> returns its result ascending by weight, an unweighted edge
  before the weighted ones.
\<close>

theorem insert_both_spec:
  fixes h :: "('n::linorder, 'e::linorder) heap" and h0 :: "('n, 'e) heap"
  assumes "allocated h g" "is_node g a" "is_node g b"
    and "filter (\<lambda>t. fst t = a \<and> fst (snd t) = b) (contents h g) = []"
    and "insert_both h g a b w = (r1, r2, h2, g2)"
  shows "r1 = Inr True \<and> r2 = Inr True
       \<and> (\<exists>x y. edges h2 g2 a b = Inr [x, y]
             \<and> cells h2 x = Unweighted_edge a b \<and> cells h2 y = Weighted_edge a b w)
       \<and> (is_node g0 s \<and> is_node g0 d \<longrightarrow>
            (\<exists>es. edges h0 g0 s d = Inr es
               \<and> sorted_wrt weight_le (map (\<lambda>e. get_weight (cells h0 e)) es)))"
proof -
  let ?P = "\<lambda>t. fst t = a \<and> fst (snd t) = b"
  obtain q1 h1 g1 where i1: "insert_edge h g a b None = (q1, h1, g1)"
    by (cases "insert_edge h g a b None")
  obtain q2 h2' g2' where i2: "insert_edge h1 g1 a b (Some w) = (q2, h2', g2')"
    by (cases "insert_edge h1 g1 a b (Some w)")
  from assms(5) i1 i2 have eq: "r1 = q1" "r2 = q2" "h2 = h2'" "g2 = g2'"
    by (simp_all add: insert_both_def)
  from assms(4) have n: "\<And>x. (a, b, x) \<notin> set (contents h g)"
    by (auto simp: filter_empty_conv)
  note s1 = insert_edge_contents[OF assms(1-3) n i1]
  have n1: "(a, b, Some w) \<notin> set (contents h1 g1)" using n by (simp add: s1(2))
  have nd: "is_node g1 a" "is_node g1 b" using assms(2,3) s1(4) by (simp_all add: is_node_def)
  note s2 = insert_edge_contents[OF s1(3) nd n1 i2]
  have nd2: "is_node g2' a" "is_node g2' b" using nd s2(4) by (simp_all add: is_node_def)
  have "filter ?P (contents h1 g1) = sort (filter ?P (contents h g @ [(a, b, None)]))"
    unfolding s1(2) by (rule filter_sort)
  then have f1: "filter ?P (contents h1 g1) = [(a, b, None)]"
    by (simp add: assms(4))
  have "filter ?P (contents h2' g2') = sort (filter ?P (contents h1 g1 @ [(a, b, Some w)]))"
    unfolding s2(2) by (rule filter_sort)
  then have "filter ?P (contents h2' g2') = [(a, b, None), (a, b, Some w)]"
    by (simp add: f1)
  then have f: "sort (filter ?P (contents h2' g2')) = [(a, b, None), (a, b, Some w)]"
    by simp
  from edges_contents[OF nd2, of h2'] f obtain es where
    es: "edges h2' g2' a b = Inr es"
      "map (\<lambda>x. value_type (cells h2' x)) es = [(a, b, None), (a, b, Some w)]" by auto
  from es(2) obtain x y where xy: "es = [x, y]"
    by (cases es; cases "tl es") auto
  with es(2) have vx: "value_type (cells h2' x) = (a, b, None)"
    and vy: "value_type (cells h2' y) = (a, b, Some w)" by simp_all
  have u: "cells h2' x = Unweighted_edge a b" by (rule value_type_unweighted[OF vx])
  have v: "cells h2' y = Weighted_edge a b w" by (rule value_type_weighted[OF vy])
  have r1: "r1 = Inr True" using s1(1) by (simp add: eq)
  have r2: "r2 = Inr True" using s2(1) by (simp add: eq)
  have A: "\<exists>x y. edges h2 g2 a b = Inr [x, y]
             \<and> cells h2 x = Unweighted_edge a b \<and> cells h2 y = Weighted_edge a b w"
    unfolding eq using es(1) xy u v by (intro exI[of _ x] exI[of _ y]) simp
  have B: "is_node g0 s \<and> is_node g0 d \<longrightarrow>
            (\<exists>es. edges h0 g0 s d = Inr es
               \<and> sorted_wrt weight_le (map (\<lambda>e. get_weight (cells h0 e)) es))"
  proof
    assume "is_node g0 s \<and> is_node g0 d"
    then have "is_node g0 s" "is_node g0 d" by simp_all
    then show "\<exists>es. edges h0 g0 s d = Inr es
               \<and> sorted_wrt weight_le (map (\<lambda>e. get_weight (cells h0 e)) es)"
      by (rule edges_sorted_weight)
  qed
  show ?thesis by (intro conjI r1 r2 A B)
qed

theorem insert_both_spec_witness:
  "allocated ex_heap ex_graph \<and> is_node ex_graph 2 \<and> is_node ex_graph 1
   \<and> filter (\<lambda>t. fst t = 2 \<and> fst (snd t) = 1) (contents ex_heap ex_graph) = []
   \<and> fst (insert_both ex_heap ex_graph 2 1 5) = Inr True
   \<and> fst (snd (insert_both ex_heap ex_graph 2 1 5)) = Inr True
   \<and> (\<exists>x y. edges (fst (snd (snd (insert_both ex_heap ex_graph 2 1 5))))
                   (snd (snd (snd (insert_both ex_heap ex_graph 2 1 5)))) 2 1 = Inr [x, y]
        \<and> cells (fst (snd (snd (insert_both ex_heap ex_graph 2 1 5)))) x = Unweighted_edge 2 1
        \<and> cells (fst (snd (snd (insert_both ex_heap ex_graph 2 1 5)))) y = Weighted_edge 2 1 5)
   \<and> (\<exists>es. edges ex_heap ex_graph 1 3 = Inr es
        \<and> sorted_wrt weight_le (map (\<lambda>e. get_weight (cells ex_heap e)) es))"
  using insert_both_spec [of ex_heap ex_graph 2 1 5
      "fst (insert_both ex_heap ex_graph 2 1 5)"
      "fst (snd (insert_both ex_heap ex_graph 2 1 5))"
      "fst (snd (snd (insert_both ex_heap ex_graph 2 1 5)))"
      "snd (snd (snd (insert_both ex_heap ex_graph 2 1 5)))" ex_graph 1 3 ex_heap]
    allocated_ex is_node_ex
  by (simp add: contents_ex)

text \<open>
  On the concrete graph, which has the edge 1 \<rightarrow> 3 of weight 2, both calls for the nodes 1
  and 3 return true, and \<open>edges(1, 3)\<close> then has three elements.
\<close>

theorem insert_both_counterexample:
  "is_node ex_graph 1 \<and> is_node ex_graph 3
   \<and> fst ex_both = Inr True \<and> fst (snd ex_both) = Inr True
   \<and> edges (fst (snd (snd ex_both))) (snd (snd (snd ex_both))) 1 3 = Inr [2, 0, 3]"
  by code_simp

section \<open>The text that the extractor writes\<close>

lemma nodes_sorted_list: "nodes g = sorted_list_of_set (m_nodes g)"
  by (simp add: nodes_def std_sort_key[where f = "\<lambda>x. x"] sorted_sort_id)

lemma print_edge_spec_render: "print_edge shown showe e = spec_render shown showe (value_type e)"
  by (cases e) (simp_all add: value_type_def)

lemma out_edges_concat:
  "out_edges shown showe h es
     = concat (map (\<lambda>t. ''  '' @ spec_render shown showe t @ nl) (map (\<lambda>a. value_type (cells h a)) es))"
  by (induction es) (simp_all add: print_edge_spec_render Let_def)

lemma set_connections_loop:
  "set (connections_loop h es n res)
     = set res \<union> {snd (get_nodes (cells h e)) | e. e \<in> set es \<and> fst (get_nodes (cells h e)) = n}"
  by (induction es arbitrary: res) (auto simp: Let_def)

lemma distinct_connections_loop:
  "distinct res \<Longrightarrow> distinct (connections_loop h es n res)"
  by (induction es arbitrary: res) (auto simp: Let_def)

lemma mset_filter_split:
  "c \<notin> set cs \<Longrightarrow>
   mset (filter (\<lambda>t. f t = c) X) + mset (filter (\<lambda>t. f t \<in> set cs) X)
     = mset (filter (\<lambda>t. f t = c \<or> f t \<in> set cs) X)"
  by (induction X) auto

lemma mset_concat_blocks:
  "distinct cs \<Longrightarrow>
   mset (concat (map (\<lambda>c. sort (filter (\<lambda>t. f t = c) X)) cs))
     = mset (filter (\<lambda>t. f t \<in> set cs) X)"
proof (induction cs)
  case Nil
  then show ?case by simp
next
  case (Cons c cs)
  then have "mset (concat (map (\<lambda>c. sort (filter (\<lambda>t. f t = c) X)) (c # cs)))
      = mset (filter (\<lambda>t. f t = c) X) + mset (filter (\<lambda>t. f t \<in> set cs) X)"
    by simp
  also have "\<dots> = mset (filter (\<lambda>t. f t = c \<or> f t \<in> set cs) X)"
    using Cons.prems by (intro mset_filter_split) simp
  finally show ?case by simp
qed

lemma sorted_concat_blocks:
  fixes X :: "('n::linorder \<times> 'n \<times> 'w::linorder) list"
  assumes "\<forall>t \<in> set X. fst t = n"
  shows "sorted cs \<Longrightarrow> distinct cs \<Longrightarrow>
    sorted (concat (map (\<lambda>c. sort (filter (\<lambda>t. fst (snd t) = c) X)) cs))"
proof (induction cs)
  case Nil
  then show ?case by simp
next
  case (Cons c cs)
  have "x \<le> y" if "x \<in> set X" "fst (snd x) = c" "y \<in> set X" "fst (snd y) \<in> set cs" for x y
  proof -
    from Cons.prems that(4) have "c < fst (snd y)" by (auto simp: less_le)
    moreover from assms that have "fst x = n" "fst y = n" by simp_all
    ultimately show ?thesis using that(2)
      by (cases x; cases y) (auto simp: less_eq_prod_def)
  qed
  with Cons show ?case by (auto simp: sorted_append)
qed

lemma sort_key_ends:
  fixes X :: "('n::linorder \<times> 'n \<times> 'w::linorder) list"
  assumes "\<forall>t \<in> set X. fst t = n"
  shows "sort_key snd X = sort X"
proof (rule properties_for_sort[symmetric])
  show "mset (sort_key snd X) = mset X" by simp
  have "sorted (map snd (sort_key snd X))"
    by simp
  then have "sorted_wrt (\<lambda>x y. snd x \<le> snd y) (sort_key snd X)"
    by (simp only: sorted_map)
  then have "sorted_wrt (\<le>) (sort_key snd X)"
  proof (rule sorted_wrt_mono_rel[rotated])
    fix x y
    assume a: "x \<in> set (sort_key snd X)" "y \<in> set (sort_key snd X)" "snd x \<le> snd y"
    with assms have "fst x = n" "fst y = n" by simp_all
    with a(3) show "x \<le> y"
      by (cases x; cases y) (auto simp: less_eq_prod_def)
  qed
  then show "sorted (sort_key snd X)" .
qed

lemma blocks_spec_outgoing:
  fixes X :: "('n::linorder \<times> 'n \<times> 'w::linorder) list"
  assumes "\<forall>t \<in> set X. fst t = n" "sorted cs" "distinct cs" "set cs = (\<lambda>t. fst (snd t)) ` set X"
  shows "concat (map (\<lambda>c. sort (filter (\<lambda>t. fst (snd t) = c) X)) cs)
          = sort_key snd X"
proof -
  have "filter (\<lambda>t. fst (snd t) \<in> set cs) X = X"
    using assms(4) by (simp add: filter_id_conv)
  with mset_concat_blocks[OF assms(3), of "\<lambda>t. fst (snd t)" X]
  have m: "mset (concat (map (\<lambda>c. sort (filter (\<lambda>t. fst (snd t) = c) X)) cs)) = mset X"
    by simp
  from properties_for_sort[OF m sorted_concat_blocks[OF assms(1-3)]]
  show ?thesis by (simp add: sort_key_ends[OF assms(1)])
qed

lemma connections_ok:
  fixes h :: "('n::linorder, 'e::linorder) heap"
  assumes "is_node g n"
  shows "\<exists>cs. connections h g n = Inr cs \<and> sorted cs \<and> distinct cs
      \<and> set cs = (\<lambda>t. fst (snd t)) ` set (filter (\<lambda>t. fst t = n) (contents h g))"
proof -
  let ?cs = "sort (connections_loop h (m_edges g) n [])"
  have "connections h g n = Inr ?cs"
    using assms by (simp add: connections_def std_sort_key[where f = "\<lambda>x. x"])
  moreover have "distinct ?cs" by (simp add: distinct_connections_loop)
  moreover have "set ?cs = (\<lambda>t. fst (snd t)) ` set (filter (\<lambda>t. fst t = n) (contents h g))"
  proof -
    have "set (filter (\<lambda>t. fst t = n) (contents h g))
        = (\<lambda>a. value_type (cells h a)) ` {e \<in> set (m_edges g). fst (get_nodes (cells h e)) = n}"
      by (auto simp: contents_def value_type_def)
    then show ?thesis
      by (auto simp: set_connections_loop image_image value_type_def)
  qed
  ultimately show ?thesis by (intro exI[of _ ?cs]) simp
qed

lemma out_conn_ok:
  fixes h :: "('n::linorder, 'e::linorder) heap"
  assumes "is_node g n"
  shows "\<forall>c \<in> set cs. is_node g c \<Longrightarrow>
    out_conn shown showe h g n cs
      = Inr (concat (map (\<lambda>t. ''  '' @ spec_render shown showe t @ nl)
          (concat (map (\<lambda>c. sort (filter (\<lambda>t. fst (snd t) = c)
                                     (filter (\<lambda>t. fst t = n) (contents h g)))) cs))))"
proof (induction cs)
  case Nil
  then show ?case by simp
next
  case (Cons c cs)
  then have "is_node g c" by simp
  from edges_contents[OF assms this, of h] obtain es where
    es: "edges h g n c = Inr es"
      "map (\<lambda>a. value_type (cells h a)) es
          = sort (filter (\<lambda>t. fst t = n \<and> fst (snd t) = c) (contents h g))" by blast
  from Cons show ?case
    by (simp add: es out_edges_concat)
qed

lemma out_nodes_ok:
  fixes h :: "('n::linorder, 'e::linorder) heap"
  assumes "I1 h g"
  shows "set ns \<subseteq> m_nodes g \<Longrightarrow>
    out_nodes shown showe h g ns = Inr (concat (map (spec_block shown showe h g) ns))"
proof (induction ns)
  case Nil
  then show ?case by simp
next
  case (Cons n ns)
  then have n: "is_node g n" by (simp add: is_node_def)
  let ?X = "filter (\<lambda>t. fst t = n) (contents h g)"
  from connections_ok[OF n, of h] obtain cs where
    cs: "connections h g n = Inr cs" "sorted cs" "distinct cs"
      "set cs = (\<lambda>t. fst (snd t)) ` set ?X" by blast
  have "\<forall>c \<in> set cs. is_node g c"
    using assms cs(4) by (auto simp: I1_def is_node_def)
  note oc = out_conn_ok[OF n this, of shown showe h]
  have "\<forall>t \<in> set ?X. fst t = n" by simp
  note bo = blocks_spec_outgoing[OF this cs(2,3,4), unfolded filter_filter]
  from Cons show ?case
    by (simp add: cs(1) oc bo spec_block_def spec_outgoing_def)
qed

lemma set_sorted_list_subset: "set (sorted_list_of_set A) \<subseteq> A"
  by (cases "finite A") simp_all

lemma spec_outgoing_I3: "sorted_wrt I3_le (spec_outgoing h g n)"
proof -
  have "I3_le = ((\<le>) :: ('a \<times> 'a \<times> 'b option) \<Rightarrow> _)"
    by (intro ext) (rule I3_le_iff)
  moreover have "sorted (spec_outgoing h g n)"
    using sort_key_ends[of "filter (\<lambda>t. fst t = n) (contents h g)" n]
    by (simp add: spec_outgoing_def)
  ultimately show ?thesis by simp
qed

text \<open>
  The extractor on a graph whose edges all join nodes of the graph (I1): \<open>operator<<\<close>
  throws nothing and writes the dump of the specification: a line break, then for every node in ascending
  order the node followed by \<open>" ("\<close> and a line break, one line for every edge that leaves
  the node, two spaces and then the edge rendered as \<open>"src -> dst | W | weight"\<close> or
  \<open>"src -> dst | U"\<close>, these lines ordered by destination and then by weight with the
  unweighted edge first, then \<open>")"\<close> and a line break. The block of a node that no edge
  leaves is the node, \<open>" ("\<close>, a line break, \<open>")"\<close> and a line break.
\<close>

theorem operator_out_spec_dump:
  fixes h :: "('n::linorder, 'e::linorder) heap"
  assumes "I1 h g"
  shows "operator_out shown showe h g = Inr (spec_dump shown showe h g)
    \<and> sorted_wrt I3_le (spec_outgoing h g n)
    \<and> (spec_outgoing h g n = [] \<longrightarrow> spec_block shown showe h g n = shown n @ '' ('' @ nl @ '')'' @ nl)"
  using out_nodes_ok[OF assms set_sorted_list_subset, of shown showe] spec_outgoing_I3[of h g n]
  by (simp add: operator_out_def spec_dump_def nodes_sorted_list spec_block_def)

lemma I1_ex: "I1 ex_heap ex_graph"
  by (simp add: I1_def contents_ex) (simp add: ex_graph_def)

lemma spec_dump_ex:
  "spec_dump ex_show (\<lambda>w. ex_show (nat w)) ex_heap ex_graph
     = nl @ ''1 ('' @ nl @ ''  1 -> 3 | W | 2'' @ nl @ '')'' @ nl
          @ ''2 ('' @ nl @ ''  2 -> 3 | W | 2'' @ nl @ '')'' @ nl
          @ ''3 ('' @ nl @ '')'' @ nl"
  by code_simp

theorem operator_out_spec_dump_witness:
  "I1 ex_heap ex_graph
   \<and> operator_out ex_show (\<lambda>w. ex_show (nat w)) ex_heap ex_graph
       = Inr (nl @ ''1 ('' @ nl @ ''  1 -> 3 | W | 2'' @ nl @ '')'' @ nl
                 @ ''2 ('' @ nl @ ''  2 -> 3 | W | 2'' @ nl @ '')'' @ nl
                 @ ''3 ('' @ nl @ '')'' @ nl)
   \<and> spec_outgoing ex_heap ex_graph 3 = []
   \<and> spec_block ex_show (\<lambda>w. ex_show (nat w)) ex_heap ex_graph 3 = ''3 ('' @ nl @ '')'' @ nl"
proof -
  have o: "spec_outgoing ex_heap ex_graph 3 = []" by (simp add: spec_outgoing_def contents_ex)
  have s: "ex_show 3 = ''3''" by code_simp
  from operator_out_spec_dump [OF I1_ex, of ex_show "\<lambda>w. ex_show (nat w)" 3] I1_ex o s
  show ?thesis by (simp only: spec_dump_ex) simp
qed

end
